theory Spec2Isabelle
  imports Complex_Main "HOL-Library.AList" "HOL-Library.Sublist"
begin

section \<open>Values and payloads\<close>

text \<open>
  The client receives loosely structured records from the remote platform. An
  identifier is a JavaScript string that may be absent (\<open>undefined\<close>); it is
  falsy when it is absent or the empty string. JavaScript numbers are modelled as
  exact rationals (the timestamps handled here are integers far below \<open>2^53\<close>).
  Every thrown value is an \<open>Error\<close> object carrying a message, as every
  \<open>throw\<close> of the source and of its collaborators creates one.
\<close>

type_synonym jsid = "string option"

type_synonym ref = nat

datatype error = Error string

definition truthy :: "jsid \<Rightarrow> bool" where
  "truthy v = (case v of None \<Rightarrow> False | Some s \<Rightarrow> s \<noteq> [])"

text \<open>\<open>a || b\<close> on identifiers.\<close>

definition js_or :: "jsid \<Rightarrow> jsid \<Rightarrow> jsid" where
  "js_or a b = (if truthy a then a else b)"

text \<open>\<open>a || 'literal'\<close>: the identifier when it is truthy, the literal otherwise.\<close>

definition or_default :: "jsid \<Rightarrow> string \<Rightarrow> string" where
  "or_default a d = (case a of None \<Rightarrow> d | Some x \<Rightarrow> if x = [] then d else x)"

record message_payload =
  item_id :: jsid
  user_id :: jsid
  thread_id :: jsid
  timestamp :: "rat option"
  item_text :: "string option"

record thread_payload =
  t_thread_id :: jsid
  t_pending :: bool
  t_title :: "string option"

type_synonym user_payload = "(string \<times> string) list"

record event_data =
  ev_message :: "message_payload option"
  ev_thread :: "thread_payload option"

record topic =
  topic_id :: string

record fbns_data =
  pushCategory :: string
  sourceUserId :: string

section \<open>Collection: a key-unique, insertion-ordered map\<close>

text \<open>
  \<open>Collection extends Map\<close>: \<open>set\<close> on a key already present replaces the value
  in place, on a new key it appends the entry; \<open>delete\<close> removes the entry.
\<close>

type_synonym 'v collection = "(jsid \<times> 'v) list"

definition coll_has :: "'v collection \<Rightarrow> jsid \<Rightarrow> bool" where
  "coll_has c k = (map_of c k \<noteq> None)"

definition coll_get :: "'v collection \<Rightarrow> jsid \<Rightarrow> 'v option" where
  "coll_get c k = map_of c k"

definition coll_set :: "'v collection \<Rightarrow> jsid \<Rightarrow> 'v \<Rightarrow> 'v collection" where
  "coll_set c k v = AList.update k v c"

definition coll_delete :: "'v collection \<Rightarrow> jsid \<Rightarrow> 'v collection" where
  "coll_delete c k = AList.delete k c"

definition keyArray :: "'v collection \<Rightarrow> jsid list" where
  "keyArray c = map fst c"

section \<open>Cache entities\<close>

text \<open>
  Modelled from the spec: the classes \<open>User\<close>, \<open>Chat\<close> and \<open>Message\<close> (their
  fields, constructors and \<open>_patch\<close>) are required by the client but are not
  among the sources. The spec gives them a stable identifier and a payload with
  patch semantics: incoming fields overwrite, fields absent from the payload are
  preserved. A chat owns a nested collection of its messages and carries the
  pending flag of its thread; a message exposes the timestamp of its payload.
\<close>

record user =
  u_data :: user_payload

record message =
  m_id :: jsid
  m_chatID :: jsid
  m_data :: message_payload

record chat =
  c_id :: jsid
  pending :: bool
  c_data :: thread_payload
  c_messages :: "ref collection"

text \<open>
  Modelled from the spec: \<open>User._patch\<close> and the constructor of \<open>User\<close>, which are
  missing. Incoming fields overwrite, the other fields are preserved.
\<close>

definition patch_fields :: "user_payload \<Rightarrow> user_payload \<Rightarrow> user_payload" where
  "patch_fields old new = AList.merge old new"

definition User_new :: "user_payload \<Rightarrow> user" where
  "User_new p = \<lparr>u_data = patch_fields [] p\<rparr>"

definition User_patch :: "user \<Rightarrow> user_payload \<Rightarrow> user" where
  "User_patch u p = u\<lparr>u_data := patch_fields (u_data u) p\<rparr>"

text \<open>
  Modelled from the spec: \<open>Message._patch\<close> and the constructor of \<open>Message\<close>, which
  are missing. A field the incoming payload carries overwrites, an absent one leaves
  the old value; the identifier of a new message is the \<open>item_id\<close> of its payload.
\<close>

definition over :: "'a option \<Rightarrow> 'a option \<Rightarrow> 'a option" where
  "over new old = (case new of None \<Rightarrow> old | Some v \<Rightarrow> Some v)"

definition patch_message_payload :: "message_payload \<Rightarrow> message_payload \<Rightarrow> message_payload" where
  "patch_message_payload old new =
     \<lparr>item_id = over (item_id new) (item_id old),
      user_id = over (user_id new) (user_id old),
      thread_id = over (thread_id new) (thread_id old),
      timestamp = over (timestamp new) (timestamp old),
      item_text = over (item_text new) (item_text old)\<rparr>"

definition Message_new :: "jsid \<Rightarrow> message_payload \<Rightarrow> message" where
  "Message_new threadId p = \<lparr>m_id = item_id p, m_chatID = threadId, m_data = p\<rparr>"

definition Message_patch :: "message \<Rightarrow> message_payload \<Rightarrow> message" where
  "Message_patch m p = m\<lparr>m_data := patch_message_payload (m_data m) p\<rparr>"

text \<open>
  Modelled from the spec: the constructor of \<open>Chat\<close>, which is missing. A new chat
  takes its identifier from the caller and its pending flag from the thread, and
  holds no messages.
\<close>

definition Chat_new :: "jsid \<Rightarrow> thread_payload \<Rightarrow> chat" where
  "Chat_new cid t = \<lparr>c_id = cid, pending = t_pending t, c_data = t, c_messages = []\<rparr>"

section \<open>The client\<close>

text \<open>
  Objects are shared by reference: the caches map identifiers to references, and
  one heap per entity class maps a reference to the object. \<open>emitted\<close> is the
  sequence of \<open>this.emit\<close> calls, \<open>logs\<close> the sequence of \<open>this.log\<close> calls and
  \<open>io\<close> the sequence of file operations, oldest first.
\<close>

datatype buffered =
    BufRealtime topic string
  | BufFbns fbns_data

datatype app_event =
    Connected
  | Disconnected
  | ErrorEvent error
  | Debug string
  | RawRealtime topic string
  | RawFbns fbns_data
  | MessageCreate ref
  | NewFollower "ref option"
  | FollowRequest "ref option"
  | PendingRequestNotification fbns_data
  | MessageRequestApproved ref
  | MessageRequestDeclined ref
  | Forwarded string

datatype io_action =
    Access string
  | ReadFile string
  | WriteFile string string

text \<open>
  A record of the cookie file, and the \<open>tough.Cookie\<close> that \<open>loadCookiesFromJson\<close>
  builds from it. The cookie jar holds what \<open>setCookie\<close> was given and accepted:
  the cookie, whose string form is passed, and the URL.
\<close>

record cookie =
  ck_name :: string
  ck_value :: string
  ck_domain :: "string option"
  ck_path :: "string option"
  ck_secure :: "bool option"
  ck_httpOnly :: "bool option"

record tough_cookie =
  tc_key :: string
  tc_value :: string
  tc_domain :: "string option"
  tc_path :: string
  tc_secure :: bool
  tc_httpOnly :: bool

record ig_state =
  ig_session :: "string option"
  cookieJar :: "(tough_cookie \<times> string) list"

record client_options =
  sessionFilePath :: string
  cookiesFilePath :: string
  maxProcessedMessageIds :: nat

record client =
  ready :: bool
  options :: client_options
  ig :: "ig_state option"
  cache_messages :: "ref collection"
  cache_users :: "ref collection"
  cache_chats :: "ref collection"
  cache_pendingChats :: "ref collection"
  users_heap :: "ref \<Rightarrow> user"
  chats_heap :: "ref \<Rightarrow> chat"
  messages_heap :: "ref \<Rightarrow> message"
  next_ref :: ref
  processedMessageIds :: "string list"
  eventsToReplay :: "buffered list"
  client_user :: "ref option"
  handlers_registered :: bool
  awaiting_connect :: bool
  unhandledRejections :: "error list"
  emitted :: "app_event list"
  logs :: "(string \<times> string) list"
  io :: "io_action list"

definition default_options :: client_options where
  "default_options =
     \<lparr>sessionFilePath = ''./session.json'',
      cookiesFilePath = ''./cookies.json'',
      maxProcessedMessageIds = 1000\<rparr>"

text \<open>The constructor: not ready, empty caches, empty dedup set, empty replay buffer.\<close>

definition Client :: "client_options \<Rightarrow> client" where
  "Client opts =
     \<lparr>ready = False,
      options = opts,
      ig = None,
      cache_messages = [],
      cache_users = [],
      cache_chats = [],
      cache_pendingChats = [],
      users_heap = (\<lambda>_. User_new []),
      chats_heap = (\<lambda>_. Chat_new None \<lparr>t_thread_id = None, t_pending = False, t_title = None\<rparr>),
      messages_heap = (\<lambda>_. Message_new None
         \<lparr>item_id = None, user_id = None, thread_id = None, timestamp = None, item_text = None\<rparr>),
      next_ref = 0,
      processedMessageIds = [],
      eventsToReplay = [],
      client_user = None,
      handlers_registered = False,
      awaiting_connect = False,
      unhandledRejections = [],
      emitted = [],
      logs = [],
      io = []\<rparr>"

definition logMsg :: "string \<Rightarrow> string \<Rightarrow> client \<Rightarrow> client" where
  "logMsg level msg s = s\<lparr>logs := logs s @ [(level, msg)]\<rparr>"

section \<open>The deduplication window\<close>

text \<open>
  \<open>processedMessageIds\<close> is a \<open>Set\<close>: it iterates in insertion order, \<open>add\<close> of a
  new element appends it, and \<open>values().next().value\<close> is its oldest element
  (\<open>undefined\<close> only when the set is empty).
\<close>

definition isNewMessageById :: "jsid \<Rightarrow> client \<Rightarrow> bool \<times> client" where
  "isNewMessageById messageId s =
     (case messageId of
        None \<Rightarrow> (True, logMsg ''WARN'' ''Attempted to check message ID, but ID was missing.'' s)
      | Some m \<Rightarrow>
          if m = [] then
            (True, logMsg ''WARN'' ''Attempted to check message ID, but ID was missing.'' s)
          else if m \<in> set (processedMessageIds s) then (False, s)
          else
            let added = processedMessageIds s @ [m] in
            if length added > maxProcessedMessageIds (options s) then
              (case added of
                 [] \<Rightarrow> (True, s\<lparr>processedMessageIds := added\<rparr>)
               | first # _ \<Rightarrow> (True, s\<lparr>processedMessageIds := remove1 first added\<rparr>))
            else (True, s\<lparr>processedMessageIds := added\<rparr>))"

text \<open>A sequence of calls, with the result of each.\<close>

fun isNew_calls :: "jsid list \<Rightarrow> client \<Rightarrow> bool list \<times> client" where
  "isNew_calls [] s = ([], s)"
| "isNew_calls (m # ms) s =
     (case isNewMessageById m s of
        (b, s1) \<Rightarrow> (case isNew_calls ms s1 of (bs, s2) \<Rightarrow> (b # bs, s2)))"

section \<open>Collaborators and outcomes\<close>

text \<open>
  A handler either returns or throws; either way the mutations made so far stay.
  The collaborators (the transport client, the file system, the clock and the
  application's listeners) answer through \<open>env\<close>; \<open>Inl\<close> is a thrown error.
\<close>

datatype 'a outcome = Return 'a client | Throws error client

definition state_of :: "'a outcome \<Rightarrow> client" where
  "state_of r = (case r of Return _ s \<Rightarrow> s | Throws _ s \<Rightarrow> s)"

definition returns :: "'a outcome \<Rightarrow> bool" where
  "returns r = (case r of Return _ _ \<Rightarrow> True | Throws _ _ \<Rightarrow> False)"

text \<open>
  A file as \<open>JSON.parse\<close> sees its text: an object, an array of cookie records, or
  text that does not parse.
\<close>

datatype file_content =
    Json_object string
  | Json_array "cookie list"
  | Malformed

record env =
  now :: rat
  listener :: "app_event \<Rightarrow> error option"
  directThread :: "jsid \<Rightarrow> error + thread_payload"
  createGroupThread :: "jsid list \<Rightarrow> error + thread_payload"
  user_info :: "jsid \<Rightarrow> error + user_payload"
  usernameinfo :: "string \<Rightarrow> error + user_payload"
  directInbox_items :: "error + thread_payload list"
  directPending_items :: "error + thread_payload list"
  directInbox_request :: "error option"
  thread_approve :: "jsid \<Rightarrow> error option"
  thread_decline :: "jsid \<Rightarrow> error option"
  fs_access :: "string \<Rightarrow> error option"
  fs_readFile :: "string \<Rightarrow> error + file_content"
  fs_writeFile :: "string \<Rightarrow> error option"
  state_deserialize :: "file_content \<Rightarrow> ig_state \<Rightarrow> error + ig_state"
  state_serialize :: "ig_state \<Rightarrow> error + string"
  currentUser :: "ig_state \<Rightarrow> error + user_payload"
  setCookie :: "tough_cookie \<Rightarrow> string \<Rightarrow> error option"
  IG_USERNAME :: "string option"
  sendForegroundState :: "error option"
  account_logout :: "error option"
  realtime_disconnect :: "error option"
  fbns_disconnect :: "error option"

text \<open>
  \<open>EventEmitter.emit\<close> calls the listeners synchronously: a listener that throws
  makes \<open>emit\<close> throw, after the event has been delivered.
\<close>

definition emit :: "env \<Rightarrow> app_event \<Rightarrow> client \<Rightarrow> unit outcome" where
  "emit e ev s =
     (let s' = s\<lparr>emitted := emitted s @ [ev]\<rparr> in
      case listener e ev of None \<Rightarrow> Return () s' | Some err \<Rightarrow> Throws err s')"

section \<open>Util\<close>

definition isID :: "string \<Rightarrow> bool" where
  "isID query = (query \<noteq> [] \<and> list_all (\<lambda>c. c \<in> set ''0123456789'') query)"

text \<open>
  \<open>Util.isMessageValid\<close>. A message without a timestamp compares as \<open>NaN\<close>, which
  is greater than nothing.
\<close>

definition isMessageValid :: "env \<Rightarrow> message \<Rightarrow> bool" where
  "isMessageValid e m =
     (case timestamp (m_data m) of
        None \<Rightarrow> False
      | Some ts \<Rightarrow>
          let timestampMs = (if ts > 10 ^ 12 then ts / 1000 else ts)
          in timestampMs + 10000000 > now e)"

section \<open>Entity cache operations\<close>

text \<open>
  A call through \<open>this.ig\<close>: before \<open>login\<close> has created the transport client the
  field is \<open>null\<close> and the call throws a \<open>TypeError\<close>.
\<close>

definition with_ig :: "client \<Rightarrow> error + 'a \<Rightarrow> error + 'a" where
  "with_ig s r =
     (case ig s of None \<Rightarrow> Inl (Error ''Cannot read properties of null'') | Some _ \<Rightarrow> r)"

definition with_ig_call :: "client \<Rightarrow> error option \<Rightarrow> error option" where
  "with_ig_call s r =
     (case ig s of None \<Rightarrow> Some (Error ''Cannot read properties of null'') | Some _ \<Rightarrow> r)"

definition patchOrCreateUser :: "jsid \<Rightarrow> user_payload \<Rightarrow> client \<Rightarrow> ref \<times> client" where
  "patchOrCreateUser userID userPayload s =
     (case coll_get (cache_users s) userID of
        Some r \<Rightarrow>
          (r, s\<lparr>users_heap := (users_heap s)(r := User_patch (users_heap s r) userPayload)\<rparr>)
      | None \<Rightarrow>
          let r = next_ref s in
          (r, s\<lparr>next_ref := Suc r,
                users_heap := (users_heap s)(r := User_new userPayload),
                cache_users := coll_set (cache_users s) userID r\<rparr>))"

definition fetchUser :: "env \<Rightarrow> string \<Rightarrow> bool \<Rightarrow> client \<Rightarrow> ref option outcome" where
  "fetchUser e query force s =
     (case (if isID query then Inr (Some query)
            else (case with_ig s (usernameinfo e query) of
                    Inl err \<Rightarrow> Inl err
                  | Inr response \<Rightarrow> Inr (map_of response ''pk''))) of
        Inl err \<Rightarrow> Throws err s
      | Inr userID \<Rightarrow>
          if \<not> coll_has (cache_users s) userID \<or> force then
            (case with_ig s (user_info e userID) of
               Inl err \<Rightarrow> Throws err s
             | Inr u \<Rightarrow>
                 let s' = snd (patchOrCreateUser userID u s)
                 in Return (coll_get (cache_users s') userID) s')
          else Return (coll_get (cache_users s) userID) s)"

definition fetchChat :: "env \<Rightarrow> jsid \<Rightarrow> bool \<Rightarrow> client \<Rightarrow> ref option outcome" where
  "fetchChat e chatID force s =
     (if \<not> coll_has (cache_chats s) chatID \<or> force then
        (case with_ig s (directThread e chatID) of
           Inl err \<Rightarrow> Throws err s
         | Inr t \<Rightarrow>
             let r = next_ref s;
                 c = Chat_new (t_thread_id t) t;
                 s' = s\<lparr>next_ref := Suc r,
                        chats_heap := (chats_heap s)(r := c),
                        cache_chats := coll_set (cache_chats s) (c_id c) r\<rparr>
             in Return (coll_get (cache_chats s') chatID) s')
      else Return (coll_get (cache_chats s) chatID) s)"

definition createChat :: "env \<Rightarrow> jsid list \<Rightarrow> client \<Rightarrow> ref outcome" where
  "createChat e userIDs s =
     (case with_ig s (createGroupThread e userIDs) of
        Inl err \<Rightarrow> Throws err s
      | Inr t \<Rightarrow>
          let r = next_ref s;
              c = Chat_new (t_thread_id t) t
          in Return r (s\<lparr>next_ref := Suc r,
                          chats_heap := (chats_heap s)(r := c),
                          cache_chats := coll_set (cache_chats s) (c_id c) r\<rparr>))"

section \<open>Message ingestion\<close>

text \<open>The minimal chat created when the thread cannot be fetched.\<close>

definition minimal_chat :: "jsid \<Rightarrow> client \<Rightarrow> ref \<times> client" where
  "minimal_chat threadId s =
     (let r = next_ref s;
          c = Chat_new threadId \<lparr>t_thread_id = threadId, t_pending = False, t_title = None\<rparr>
      in (r, s\<lparr>next_ref := Suc r,
                chats_heap := (chats_heap s)(r := c),
                cache_chats := coll_set (cache_chats s) threadId r\<rparr>))"

text \<open>Ensure the thread exists in the cache (fetch if needed).\<close>

definition resolve_chat :: "env \<Rightarrow> jsid \<Rightarrow> client \<Rightarrow> ref \<times> client" where
  "resolve_chat e threadId s =
     (case coll_get (cache_chats s) threadId of
        Some r \<Rightarrow> (r, s)
      | None \<Rightarrow>
          (case fetchChat e threadId False s of
             Return (Some r) s1 \<Rightarrow> (r, s1)
           | Return None s1 \<Rightarrow> minimal_chat threadId s1
           | Throws err s1 \<Rightarrow>
               minimal_chat threadId (logMsg ''WARN'' ''Error fetching/creating chat for message'' s1)))"

text \<open>Create or update the Message object in the cache.\<close>

definition upsert_message :: "jsid \<Rightarrow> ref \<Rightarrow> message_payload \<Rightarrow> client \<Rightarrow> ref \<times> client" where
  "upsert_message threadId cr p s =
     (let chat = chats_heap s cr in
      case coll_get (c_messages chat) (item_id p) of
        Some mr \<Rightarrow>
          (mr, s\<lparr>messages_heap := (messages_heap s)(mr := Message_patch (messages_heap s mr) p)\<rparr>)
      | None \<Rightarrow>
          let mr = next_ref s;
              msg = Message_new threadId p
          in (mr, s\<lparr>next_ref := Suc mr,
                     messages_heap := (messages_heap s)(mr := msg),
                     chats_heap := (chats_heap s)
                        (cr := chat\<lparr>c_messages := coll_set (c_messages chat) (m_id msg) mr\<rparr>),
                     cache_messages := coll_set (cache_messages s) (m_id msg) mr\<rparr>))"

text \<open>The body of the \<open>try\<close> block of \<open>processMessage\<close>.\<close>

definition processMessage_try ::
  "env \<Rightarrow> message_payload option \<Rightarrow> event_data \<Rightarrow> client \<Rightarrow> unit outcome" where
  "processMessage_try e messagePayload eventData s =
     (case messagePayload of
        None \<Rightarrow> Return () (logMsg ''WARN'' ''Received message with missing essential fields'' s)
      | Some p \<Rightarrow>
          if \<not> truthy (user_id p) \<or> \<not> truthy (item_id p) then
            Return () (logMsg ''WARN'' ''Received message with missing essential fields'' s)
          else
            let threadId =
                  js_or (case ev_thread eventData of None \<Rightarrow> None | Some t \<Rightarrow> t_thread_id t)
                        (thread_id p)
            in
            if \<not> truthy threadId then
              Return () (logMsg ''WARN'' ''Could not determine thread ID for message'' s)
            else
              (case resolve_chat e threadId s of
                 (cr, s1) \<Rightarrow>
                   (case upsert_message threadId cr p s1 of
                      (mr, s2) \<Rightarrow>
                        if isMessageValid e (messages_heap s2 mr)
                        then emit e (MessageCreate mr) s2
                        else Return () s2)))"

definition processMessage ::
  "env \<Rightarrow> message_payload option \<Rightarrow> event_data \<Rightarrow> client \<Rightarrow> unit outcome" where
  "processMessage e messagePayload eventData s =
     (case processMessage_try e messagePayload eventData s of
        Return _ s' \<Rightarrow> Return () s'
      | Throws err s' \<Rightarrow>
          Return () (logMsg ''ERROR'' ''Error processing message into insta.js object'' s'))"

text \<open>The body of the \<open>try\<close> block of \<open>handleMessageWrapper\<close>.\<close>

definition handleMessageWrapper_try :: "env \<Rightarrow> event_data \<Rightarrow> client \<Rightarrow> unit outcome" where
  "handleMessageWrapper_try e data s =
     (case ev_message data of
        None \<Rightarrow> Return () (logMsg ''WARN'' ''No message payload in event data'' s)
      | Some p \<Rightarrow>
          (case isNewMessageById (item_id p) s of
             (False, s1) \<Rightarrow> Return () (logMsg ''DEBUG'' ''Message filtered as duplicate (by ID)'' s1)
           | (True, s1) \<Rightarrow>
               processMessage e (Some p) data (logMsg ''INFO'' ''Processing new message (by ID)...'' s1)))"

definition handleMessageWrapper :: "env \<Rightarrow> event_data \<Rightarrow> client \<Rightarrow> unit outcome" where
  "handleMessageWrapper e data s =
     (case handleMessageWrapper_try e data s of
        Return _ s' \<Rightarrow> Return () s'
      | Throws err s' \<Rightarrow> Return () (logMsg ''ERROR'' ''Critical error in message handler'' s'))"

section \<open>Example inputs\<close>

definition ex_opts :: client_options where
  "ex_opts = default_options\<lparr>maxProcessedMessageIds := 2\<rparr>"

definition ex_calls :: "jsid list" where
  "ex_calls = [Some ''a'', Some ''b'', Some ''a'', None, Some ''c'']"

section \<open>Realtime and push handlers\<close>

definition and_then :: "unit outcome \<Rightarrow> (client \<Rightarrow> unit outcome) \<Rightarrow> unit outcome" where
  "and_then r f = (case r of Return _ s \<Rightarrow> f s | Throws err s \<Rightarrow> Throws err s)"

text \<open>
  A call of an \<open>async\<close> function whose promise nobody awaits: a rejection does not
  reach the caller, it is left unhandled.
\<close>

definition detached :: "unit outcome \<Rightarrow> client" where
  "detached r =
     (case r of
        Return _ s \<Rightarrow> s
      | Throws err s \<Rightarrow> s\<lparr>unhandledRejections := unhandledRejections s @ [err]\<rparr>)"

definition parseInboxUpdates :: "string \<Rightarrow> client \<Rightarrow> client" where
  "parseInboxUpdates payload s = logMsg ''DEBUG'' ''Parsing inbox updates (placeholder logic)'' s"

text \<open>
  A call of an \<open>async\<close> function runs its body up to the first \<open>await\<close>; the rest
  runs when the awaited promise has settled, and never before the synchronous code
  of the caller has finished. What a call of \<open>fetchUser\<close> is waiting for when it
  hands control back: nothing when the user is cached or the call has already
  thrown, the answer of \<open>user.info\<close>, or the answer of \<open>user.usernameinfo\<close>.
\<close>

datatype fetch =
    Settled "error + ref option"
  | Awaiting_info jsid
  | Awaiting_usernameinfo string

definition fetchUser_call :: "string \<Rightarrow> bool \<Rightarrow> client \<Rightarrow> fetch" where
  "fetchUser_call query force s =
     (if isID query then
        (if \<not> coll_has (cache_users s) (Some query) \<or> force then
           (case ig s of
              None \<Rightarrow> Settled (Inl (Error ''Cannot read properties of null''))
            | Some _ \<Rightarrow> Awaiting_info (Some query))
         else Settled (Inr (coll_get (cache_users s) (Some query))))
      else
        (case ig s of
           None \<Rightarrow> Settled (Inl (Error ''Cannot read properties of null''))
         | Some _ \<Rightarrow> Awaiting_usernameinfo query))"

text \<open>The rest of \<open>fetchUser\<close>, on the state the client has when the answer arrives.\<close>

definition fetchUser_resume :: "env \<Rightarrow> fetch \<Rightarrow> bool \<Rightarrow> client \<Rightarrow> ref option outcome" where
  "fetchUser_resume e f force s =
     (case f of
        Settled r \<Rightarrow> (case r of Inl err \<Rightarrow> Throws err s | Inr u \<Rightarrow> Return u s)
      | Awaiting_info userID \<Rightarrow>
          (case user_info e userID of
             Inl err \<Rightarrow> Throws err s
           | Inr u \<Rightarrow>
               let s' = snd (patchOrCreateUser userID u s)
               in Return (coll_get (cache_users s') userID) s')
      | Awaiting_usernameinfo query \<Rightarrow>
          (case usernameinfo e query of
             Inl err \<Rightarrow> Throws err s
           | Inr response \<Rightarrow>
               let userID = map_of response ''pk''
               in if \<not> coll_has (cache_users s) userID \<or> force then
                    (case with_ig s (user_info e userID) of
                       Inl err \<Rightarrow> Throws err s
                     | Inr u \<Rightarrow>
                         let s' = snd (patchOrCreateUser userID u s)
                         in Return (coll_get (cache_users s') userID) s')
                  else Return (coll_get (cache_users s) userID) s))"

text \<open>
  \<open>handleFbnsReceive\<close> is \<open>async\<close> and both callers drop its promise. Its three
  tests are on one string, so at most one holds. For a follower or a follow request
  the call only starts \<open>fetchUser\<close>: the event is emitted by the rest of the
  function, a task that is left pending. A pending-request notification is logged
  and emitted by the call itself.
\<close>

datatype follow_kind = New_follower | Follow_request

type_synonym task = "follow_kind \<times> fetch"

definition follow_event :: "follow_kind \<Rightarrow> ref option \<Rightarrow> app_event" where
  "follow_event k u = (case k of New_follower \<Rightarrow> NewFollower u | Follow_request \<Rightarrow> FollowRequest u)"

definition handleFbnsReceive_call :: "env \<Rightarrow> fbns_data \<Rightarrow> client \<Rightarrow> task list \<times> client" where
  "handleFbnsReceive_call e data s =
     (if pushCategory data = ''new_follower'' then
        ([(New_follower, fetchUser_call (sourceUserId data) False s)], s)
      else if pushCategory data = ''private_user_follow_request'' then
        ([(Follow_request, fetchUser_call (sourceUserId data) False s)], s)
      else if pushCategory data = ''direct_v2_pending'' then
        ([], detached (emit e (PendingRequestNotification data)
                (logMsg ''INFO'' ''Pending message request notification received (FBNS)'' s)))
      else ([], s))"

definition handleFbnsReceive_resume :: "env \<Rightarrow> task \<Rightarrow> client \<Rightarrow> client" where
  "handleFbnsReceive_resume e tk s =
     detached
       (case fetchUser_resume e (snd tk) False s of
          Throws err s' \<Rightarrow> Throws err s'
        | Return u s' \<Rightarrow> emit e (follow_event (fst tk) u) s')"

text \<open>
  The pending tasks run once the handler that started them has returned: first
  those that wait for nothing, in the order they were started, then those that
  wait for an answer of the service. The answers are taken to arrive in the order
  of the requests, and before the next input of the client.
\<close>

definition waits_for_nothing :: "task \<Rightarrow> bool" where
  "waits_for_nothing tk = (case snd tk of Settled _ \<Rightarrow> True | _ \<Rightarrow> False)"

definition settle :: "env \<Rightarrow> task list \<Rightarrow> client \<Rightarrow> client" where
  "settle e tks s =
     fold (handleFbnsReceive_resume e)
       (filter waits_for_nothing tks @ filter (\<lambda>tk. \<not> waits_for_nothing tk) tks) s"

text \<open>A call of \<open>handleFbnsReceive\<close> together with the task it leaves.\<close>

definition handleFbnsReceive :: "env \<Rightarrow> fbns_data \<Rightarrow> client \<Rightarrow> client" where
  "handleFbnsReceive e data s =
     (case handleFbnsReceive_call e data s of (tks, s') \<Rightarrow> settle e tks s')"

text \<open>The \<open>receive\<close> handler of the realtime client.\<close>

definition on_receive :: "env \<Rightarrow> topic \<Rightarrow> string \<Rightarrow> client \<Rightarrow> unit outcome" where
  "on_receive e tp payload s =
     (if \<not> ready s then
        Return () (s\<lparr>eventsToReplay := eventsToReplay s @ [BufRealtime tp payload]\<rparr>)
      else
        and_then (emit e (RawRealtime tp payload) s)
          (\<lambda>s1. if topic_id tp = ''146'' then Return () (parseInboxUpdates payload s1)
                else Return () s1))"

text \<open>The subscriber of \<open>fbns.push$\<close>.\<close>

definition on_fbns_push :: "env \<Rightarrow> fbns_data \<Rightarrow> client \<Rightarrow> unit outcome" where
  "on_fbns_push e data s =
     (if \<not> ready s then
        Return () (s\<lparr>eventsToReplay := eventsToReplay s @ [BufFbns data]\<rparr>)
      else
        and_then (emit e (RawFbns data) s)
          (\<lambda>s1. Return () (handleFbnsReceive e data s1)))"

definition on_close :: "env \<Rightarrow> client \<Rightarrow> unit outcome" where
  "on_close e s =
     emit e Disconnected ((logMsg ''WARN'' ''Realtime connection closed'' s)\<lparr>ready := False\<rparr>)"

definition on_error :: "env \<Rightarrow> error \<Rightarrow> client \<Rightarrow> unit outcome" where
  "on_error e err s = emit e (ErrorEvent err) (logMsg ''ERROR'' ''Realtime connection error'' s)"

text \<open>
  The handlers of \<open>threadUpdate\<close>, \<open>presence\<close>, \<open>typing\<close>, \<open>messageStatus\<close>,
  \<open>liveNotification\<close>, \<open>activity\<close>, \<open>connect\<close> and \<open>reconnect\<close> log the event and
  re-emit it under a name of the application.
\<close>

definition on_forwarded :: "env \<Rightarrow> string \<Rightarrow> client \<Rightarrow> unit outcome" where
  "on_forwarded e name s = emit e (Forwarded name) (logMsg ''INFO'' name s)"

definition registerRealtimeHandlers :: "client \<Rightarrow> client" where
  "registerRealtimeHandlers s =
     (logMsg ''INFO'' ''Registering real-time event handlers...'' s)\<lparr>handlers_registered := True\<rparr>"

section \<open>Login\<close>

text \<open>
  The \<open>tough.Cookie\<close> built from a record: a leading dot of the domain is dropped,
  the path defaults to \<open>/\<close>, and the two flags are set unless the record says
  \<open>false\<close>.
\<close>

definition toughCookie :: "cookie \<Rightarrow> tough_cookie" where
  "toughCookie c =
     \<lparr>tc_key = ck_name c,
      tc_value = ck_value c,
      tc_domain = (if truthy (ck_domain c)
                   then map_option (\<lambda>d. if take 1 d = ''.'' then drop 1 d else d) (ck_domain c)
                   else None),
      tc_path = or_default (ck_path c) ''/'',
      tc_secure = (ck_secure c \<noteq> Some False),
      tc_httpOnly = (ck_httpOnly c \<noteq> Some False)\<rparr>"

definition cookie_url :: "tough_cookie \<Rightarrow> string" where
  "cookie_url tc = ''https://'' @ or_default (tc_domain tc) [] @ tc_path tc"

text \<open>The loop over the records of the cookie file; the jar may reject a cookie.\<close>

fun install_cookies :: "env \<Rightarrow> cookie list \<Rightarrow> client \<Rightarrow> unit outcome" where
  "install_cookies e [] s = Return () s"
| "install_cookies e (c # cs) s =
     (if truthy (tc_domain (toughCookie c)) then
        (case ig s of
           None \<Rightarrow> Throws (Error ''Cannot read properties of null'') s
         | Some g \<Rightarrow>
             (case setCookie e (toughCookie c) (cookie_url (toughCookie c)) of
                Some err \<Rightarrow> Throws err s
              | None \<Rightarrow>
                  install_cookies e cs
                    (s\<lparr>ig := Some (g\<lparr>cookieJar := cookieJar g @
                          [(toughCookie c, cookie_url (toughCookie c))]\<rparr>)\<rparr>)))
      else install_cookies e cs
             (logMsg ''WARN'' ''Skipping cookie due to missing domain'' s))"

definition loadCookiesFromJson :: "env \<Rightarrow> string \<Rightarrow> client \<Rightarrow> unit outcome" where
  "loadCookiesFromJson e path s =
     (let s0 = s\<lparr>io := io s @ [ReadFile path]\<rparr>;
          failed = (\<lambda>err s'. Throws err (logMsg ''ERROR'' ''Critical error loading cookies'' s'))
      in case fs_readFile e path of
           Inl err \<Rightarrow> failed err s0
         | Inr Malformed \<Rightarrow> failed (Error ''Unexpected token in JSON'') s0
         | Inr (Json_object _) \<Rightarrow> failed (Error ''cookies is not iterable'') s0
         | Inr (Json_array cookies) \<Rightarrow>
             (case install_cookies e cookies s0 of
                Throws err s1 \<Rightarrow> failed err s1
              | Return _ s1 \<Rightarrow>
                  Return () (logMsg ''INFO'' ''Successfully loaded cookies from file'' s1)))"

text \<open>Step 1 of \<open>attemptLogin\<close>: the body of its \<open>try\<close> block.\<close>

definition session_login_try :: "env \<Rightarrow> client \<Rightarrow> unit outcome" where
  "session_login_try e s =
     (let path = sessionFilePath (options s);
          s1 = s\<lparr>io := io s @ [Access path]\<rparr>
      in case fs_access e path of
           Some err \<Rightarrow> Throws err s1
         | None \<Rightarrow>
             let s2 = logMsg ''INFO'' ''Found session file, trying to login from session...'' s1;
                 s3 = s2\<lparr>io := io s2 @ [ReadFile path]\<rparr>
             in case fs_readFile e path of
                  Inl err \<Rightarrow> Throws err s3
                | Inr Malformed \<Rightarrow> Throws (Error ''Unexpected token in JSON'') s3
                | Inr sessionData \<Rightarrow>
                    (case ig s3 of
                       None \<Rightarrow> Throws (Error ''Cannot read properties of null'') s3
                     | Some g \<Rightarrow>
                         (case state_deserialize e sessionData g of
                            Inl err \<Rightarrow> Throws err s3
                          | Inr g' \<Rightarrow>
                              let s4 = s3\<lparr>ig := Some g'\<rparr>
                              in case currentUser e g' of
                                   Inl err \<Rightarrow> Throws err s4
                                 | Inr _ \<Rightarrow>
                                     Return () (logMsg ''INFO'' ''Logged in from session file'' s4))))"

text \<open>Step 2 and 3: the cookie fallback with its \<open>catch\<close>; the result is \<open>loginSuccess\<close>.\<close>

definition cookie_login :: "env \<Rightarrow> client \<Rightarrow> bool \<times> client" where
  "cookie_login e s =
     (let caught = (\<lambda>s'. logMsg ''DEBUG'' ''Cookie loading error stack''
                            (logMsg ''ERROR'' ''Failed to load or process cookies file'' s'));
          s1 = logMsg ''INFO'' ''Attempting login using cookies file...'' s
      in case loadCookiesFromJson e (cookiesFilePath (options s1)) s1 of
           Throws err s2 \<Rightarrow> (False, caught s2)
         | Return _ s2 \<Rightarrow>
             (case ig s2 of
                None \<Rightarrow> (False, caught s2)
              | Some g \<Rightarrow>
                  (case currentUser e g of
                     Inl err \<Rightarrow> (False, caught s2)
                   | Inr _ \<Rightarrow>
                       let s3 = logMsg ''INFO'' ''Logged in using cookies file'' s2
                       in case state_serialize e g of
                            Inl err \<Rightarrow> (True, caught s3)
                          | Inr session \<Rightarrow>
                              (case fs_writeFile e (sessionFilePath (options s3)) of
                                 Some err \<Rightarrow> (True, caught s3)
                               | None \<Rightarrow>
                                   (True,
                                    logMsg ''INFO'' ''session file saved from cookie-based login''
                                      (s3\<lparr>io := io s3 @
                                         [WriteFile (sessionFilePath (options s3)) session]\<rparr>))))))"

definition attemptLogin :: "env \<Rightarrow> client \<Rightarrow> bool \<times> client" where
  "attemptLogin e s =
     (let s0 = s\<lparr>ig := Some \<lparr>ig_session = None, cookieJar = []\<rparr>\<rparr>
      in case session_login_try e s0 of
           Return _ s1 \<Rightarrow> (True, s1)
         | Throws err s1 \<Rightarrow>
             cookie_login e
               (logMsg ''INFO'' ''session file not found or invalid, trying cookies...'' s1))"

text \<open>
  Fetch user info for the client user: the body of the \<open>try\<close> block. The class
  \<open>ClientUser\<close> is not among the sources; as for every user, its identifier is the
  \<open>pk\<close> of its payload.
\<close>

definition fetch_client_user :: "env \<Rightarrow> client \<Rightarrow> unit outcome" where
  "fetch_client_user e s =
     (case with_ig s (usernameinfo e (or_default (IG_USERNAME e) ''default'')) of
        Inl err \<Rightarrow> Throws err s
      | Inr response \<Rightarrow>
          (case with_ig s (user_info e (map_of response ''pk'')) of
             Inl err \<Rightarrow> Throws err s
           | Inr userData \<Rightarrow>
               let r = next_ref s;
                   u = User_new (AList.merge response userData)
               in emit e (Debug ''logged'')
                    (s\<lparr>next_ref := Suc r,
                       users_heap := (users_heap s)(r := u),
                       client_user := Some r,
                       cache_users := coll_set (cache_users s) (map_of (u_data u) ''pk'') r\<rparr>)))"

text \<open>Pre-populate the chat cache: the callback of \<open>threads.forEach\<close>, and the block.\<close>

definition cache_thread :: "thread_payload \<Rightarrow> client \<Rightarrow> client" where
  "cache_thread t s =
     (let r = next_ref s;
          c = Chat_new (t_thread_id t) t;
          s1 = s\<lparr>next_ref := Suc r,
                 chats_heap := (chats_heap s)(r := c),
                 cache_chats := coll_set (cache_chats s) (t_thread_id t) r\<rparr>
      in if pending c
         then s1\<lparr>cache_pendingChats := coll_set (cache_pendingChats s1) (t_thread_id t) r\<rparr>
         else s1)"

definition prepopulate :: "env \<Rightarrow> client \<Rightarrow> client" where
  "prepopulate e s =
     (case directInbox_items e of
        Inl err \<Rightarrow> logMsg ''WARN'' ''Error pre-populating chat cache'' s
      | Inr inbox \<Rightarrow>
          (case directPending_items e of
             Inl err \<Rightarrow> logMsg ''WARN'' ''Error pre-populating chat cache'' s
           | Inr pend \<Rightarrow> fold cache_thread (inbox @ pend) s))"

text \<open>
  \<open>login\<close> up to the point where it awaits the two \<open>connect\<close> calls. While it waits,
  the handlers it has registered receive events.
\<close>

definition login_begin :: "env \<Rightarrow> client \<Rightarrow> unit outcome" where
  "login_begin e s =
     (case attemptLogin e s of
        (False, s1) \<Rightarrow>
          Throws (Error ''No valid login method succeeded (session or cookies).'') s1
      | (True, s1) \<Rightarrow>
          (case fetch_client_user e s1 of
             Throws err s2 \<Rightarrow>
               Throws err (logMsg ''ERROR'' ''Failed to fetch client user info'' s2)
           | Return _ s2 \<Rightarrow>
               let s3 = registerRealtimeHandlers (prepopulate e s2)
               in case directInbox_request e of
                    Some err \<Rightarrow> Throws err s3
                  | None \<Rightarrow> Return () s3))"

text \<open>
  The callback of the replay loop, for one buffered event: it handles the event and
  adds the task a push notification leaves pending to those started so far.
\<close>

definition replay_event :: "env \<Rightarrow> buffered \<Rightarrow> task list \<times> client \<Rightarrow> task list \<times> client" where
  "replay_event e ev acc =
     (case acc of
        (tks, s) \<Rightarrow>
          (case ev of
             BufRealtime tp payload \<Rightarrow>
               (tks, if topic_id tp = ''146'' then parseInboxUpdates payload s else s)
           | BufFbns data \<Rightarrow>
               (case handleFbnsReceive_call e data s of (new, s') \<Rightarrow> (tks @ new, s'))))"

text \<open>
  The rest of \<open>login\<close> once both connects have resolved. The tasks the replay has
  started run after the loop has ended and the buffer has been emptied.
\<close>

definition login_connected :: "env \<Rightarrow> client \<Rightarrow> unit outcome" where
  "login_connected e s =
     (case emit e Connected (s\<lparr>ready := True\<rparr>) of
        Throws err s1 \<Rightarrow> Throws err s1
      | Return _ s1 \<Rightarrow>
          let s2 = logMsg ''INFO'' ''Combined Instagram client is now running and listening for messages'' s1
          in case fold (replay_event e) (eventsToReplay s2) ([], s2) of
               (tks, s3) \<Rightarrow> Return () (settle e tks (s3\<lparr>eventsToReplay := []\<rparr>)))"

text \<open>
  \<open>login\<close> in a run where both connects resolve and no event arrives while it
  waits for them.
\<close>

definition login_resolved :: "env \<Rightarrow> client \<Rightarrow> unit outcome" where
  "login_resolved e s = and_then (login_begin e s) (login_connected e)"

section \<open>Message requests and logout\<close>

definition approveMessageRequest :: "env \<Rightarrow> jsid \<Rightarrow> client \<Rightarrow> bool \<times> client" where
  "approveMessageRequest e threadId s =
     (if \<not> truthy threadId then
        (False, logMsg ''WARN'' ''approveMessageRequest called without threadId'' s)
      else
        (case with_ig_call s (thread_approve e threadId) of
           Some err \<Rightarrow> (False, logMsg ''ERROR'' ''Failed to approve message request'' s)
         | None \<Rightarrow>
             let s1 = logMsg ''INFO'' ''Successfully approved message request'' s
             in case coll_get (cache_pendingChats s1) threadId of
                  None \<Rightarrow> (True, s1)
                | Some r \<Rightarrow>
                    (case emit e (MessageRequestApproved r)
                            (s1\<lparr>chats_heap := (chats_heap s1)(r := (chats_heap s1 r)\<lparr>pending := False\<rparr>),
                                cache_chats := coll_set (cache_chats s1) threadId r,
                                cache_pendingChats := coll_delete (cache_pendingChats s1) threadId\<rparr>) of
                       Return _ s2 \<Rightarrow> (True, s2)
                     | Throws err s2 \<Rightarrow>
                         (False, logMsg ''ERROR'' ''Failed to approve message request'' s2))))"

definition declineMessageRequest :: "env \<Rightarrow> jsid \<Rightarrow> client \<Rightarrow> bool \<times> client" where
  "declineMessageRequest e threadId s =
     (if \<not> truthy threadId then
        (False, logMsg ''WARN'' ''declineMessageRequest called without threadId'' s)
      else
        (case with_ig_call s (thread_decline e threadId) of
           Some err \<Rightarrow> (False, logMsg ''ERROR'' ''Failed to decline message request'' s)
         | None \<Rightarrow>
             let s1 = logMsg ''INFO'' ''Successfully declined message request'' s
             in case coll_get (cache_pendingChats s1) threadId of
                  None \<Rightarrow> (True, s1)
                | Some r \<Rightarrow>
                    (case emit e (MessageRequestDeclined r)
                            (s1\<lparr>cache_pendingChats := coll_delete (cache_pendingChats s1) threadId\<rparr>) of
                       Return _ s2 \<Rightarrow> (True, s2)
                     | Throws err s2 \<Rightarrow>
                         (False, logMsg ''ERROR'' ''Failed to decline message request'' s2))))"

text \<open>
  \<open>logout\<close>: every teardown step catches and logs its own failure. The monitor
  interval is a timer and is outside this model.
\<close>

definition teardown :: "error option \<Rightarrow> string \<Rightarrow> string \<Rightarrow> client \<Rightarrow> client" where
  "teardown r good bad s =
     (case r of None \<Rightarrow> logMsg ''INFO'' good s | Some err \<Rightarrow> logMsg ''WARN'' bad s)"

definition logout :: "env \<Rightarrow> client \<Rightarrow> unit outcome" where
  "logout e s =
     (let s1 = (logMsg ''INFO'' ''Initiating graceful logout from Instagram...'' s)\<lparr>ready := False\<rparr>;
          s2 = (case with_ig_call s1 (sendForegroundState e) of
                  None \<Rightarrow> logMsg ''INFO'' ''Foreground state set'' s1
                | Some err \<Rightarrow> logMsg ''ERROR'' ''Failed to set foreground state'' s1);
          s3 = (if ig s2 = None then s2
                else teardown (account_logout e) ''Logged out of Instagram account''
                       ''Error during account logout'' s2);
          s4 = (if ig s3 = None then s3
                else teardown (realtime_disconnect e) ''Disconnected from Instagram realtime''
                       ''Error during realtime disconnect'' s3);
          s5 = (if ig s4 = None then s4
                else teardown (fbns_disconnect e) ''Disconnected from Instagram FBNS''
                       ''Error during FBNS disconnect'' s4)
      in emit e Disconnected s5)"

section \<open>The client as a state machine\<close>

text \<open>
  Everything that can happen to a client: a call of its public operations, an event
  on one of the channels its handlers are registered on, and the resolution of the
  \<open>connect\<close> calls a pending \<open>login\<close> awaits. Each handler, and the tasks it has
  left pending, run to completion before the next input; an error thrown to the
  caller leaves the mutations made.
\<close>

datatype input =
    Login
  | Connect_resolved
  | Connect_rejected
  | Message_event event_data
  | Direct_event event_data
  | Receive_event topic string
  | Fbns_push fbns_data
  | Close_event
  | Error_event error
  | Forwarded_event string
  | Approve jsid
  | Decline jsid
  | FetchChat jsid bool
  | FetchUser string bool
  | CreateChat "jsid list"
  | Logout

definition step :: "env \<Rightarrow> input \<Rightarrow> client \<Rightarrow> client" where
  "step e i s =
     (case i of
        Login \<Rightarrow>
          (case login_begin e s of
             Return _ s' \<Rightarrow> s'\<lparr>awaiting_connect := True\<rparr>
           | Throws err s' \<Rightarrow> s')
      | Connect_resolved \<Rightarrow>
          if awaiting_connect s
          then state_of (login_connected e (s\<lparr>awaiting_connect := False\<rparr>))
          else s
      | Connect_rejected \<Rightarrow> s\<lparr>awaiting_connect := False\<rparr>
      | Message_event d \<Rightarrow>
          if handlers_registered s then state_of (handleMessageWrapper e d s) else s
      | Direct_event d \<Rightarrow>
          if handlers_registered s then state_of (handleMessageWrapper e d s) else s
      | Receive_event tp payload \<Rightarrow>
          if handlers_registered s then state_of (on_receive e tp payload s) else s
      | Fbns_push data \<Rightarrow>
          if handlers_registered s then state_of (on_fbns_push e data s) else s
      | Close_event \<Rightarrow>
          if handlers_registered s then state_of (on_close e s) else s
      | Error_event err \<Rightarrow>
          if handlers_registered s then state_of (on_error e err s) else s
      | Forwarded_event name \<Rightarrow>
          if handlers_registered s then state_of (on_forwarded e name s) else s
      | Approve threadId \<Rightarrow> snd (approveMessageRequest e threadId s)
      | Decline threadId \<Rightarrow> snd (declineMessageRequest e threadId s)
      | FetchChat chatID force \<Rightarrow> state_of (fetchChat e chatID force s)
      | FetchUser query force \<Rightarrow> state_of (fetchUser e query force s)
      | CreateChat userIDs \<Rightarrow> state_of (createChat e userIDs s)
      | Logout \<Rightarrow> state_of (logout e s))"

fun run :: "(env \<times> input) list \<Rightarrow> client \<Rightarrow> client" where
  "run [] s = s"
| "run ((e, i) # rest) s = run rest (step e i s)"

section \<open>Delivery of a sequence of message events\<close>

text \<open>
  The transport calls the \<open>message\<close>/\<open>direct\<close> handler once per event, in order.
  A handler that throws would end the delivery there, with the error.
\<close>

fun deliver_messages :: "(env \<times> event_data) list \<Rightarrow> client \<Rightarrow> unit outcome" where
  "deliver_messages [] s = Return () s"
| "deliver_messages ((e, d) # evs) s =
     (case handleMessageWrapper e d s of
        Return _ s' \<Rightarrow> deliver_messages evs s'
      | Throws err s' \<Rightarrow> Throws err s')"

text \<open>Upsert calls with one identifier and a list of payloads, with the result of each.\<close>

fun upsert_calls :: "jsid \<Rightarrow> user_payload list \<Rightarrow> client \<Rightarrow> ref list \<times> client" where
  "upsert_calls userID [] s = ([], s)"
| "upsert_calls userID (p # ps) s =
     (case patchOrCreateUser userID p s of
        (r, s1) \<Rightarrow> (case upsert_calls userID ps s1 of (rs, s2) \<Rightarrow> (r # rs, s2)))"

fun upsert_message_calls ::
  "jsid \<Rightarrow> ref \<Rightarrow> message_payload list \<Rightarrow> client \<Rightarrow> ref list \<times> client" where
  "upsert_message_calls threadId cr [] s = ([], s)"
| "upsert_message_calls threadId cr (p # ps) s =
     (case upsert_message threadId cr p s of
        (r, s1) \<Rightarrow> (case upsert_message_calls threadId cr ps s1 of (rs, s2) \<Rightarrow> (r # rs, s2)))"

text \<open>
  The field-wise merge of payloads in call order, in the spec's words: the value of
  a field is that of the last payload that carries the field, and the value the
  entity had before when no payload carries it.
\<close>

definition merged_field :: "user_payload list \<Rightarrow> string \<Rightarrow> string option \<Rightarrow> string option" where
  "merged_field ps f before =
     (case filter (\<lambda>p. map_of p f \<noteq> None) ps of
        [] \<Rightarrow> before
      | q # qs \<Rightarrow> map_of (last (q # qs)) f)"

text \<open>
  An environment in which every call to the service or the file system fails and no
  listener throws; the cookie jar, which is in memory, accepts every cookie.
\<close>

definition offline :: env where
  "offline =
     \<lparr>now = 1700000000000,
      listener = (\<lambda>_. None),
      directThread = (\<lambda>_. Inl (Error ''offline'')),
      createGroupThread = (\<lambda>_. Inl (Error ''offline'')),
      user_info = (\<lambda>_. Inl (Error ''offline'')),
      usernameinfo = (\<lambda>_. Inl (Error ''offline'')),
      directInbox_items = Inl (Error ''offline''),
      directPending_items = Inl (Error ''offline''),
      directInbox_request = Some (Error ''offline''),
      thread_approve = (\<lambda>_. Some (Error ''offline'')),
      thread_decline = (\<lambda>_. Some (Error ''offline'')),
      fs_access = (\<lambda>_. Some (Error ''ENOENT'')),
      fs_readFile = (\<lambda>_. Inl (Error ''ENOENT'')),
      fs_writeFile = (\<lambda>_. Some (Error ''EACCES'')),
      state_deserialize = (\<lambda>_ _. Inl (Error ''offline'')),
      state_serialize = (\<lambda>_. Inl (Error ''offline'')),
      currentUser = (\<lambda>_. Inl (Error ''offline'')),
      setCookie = (\<lambda>_ _. None),
      IG_USERNAME = None,
      sendForegroundState = Some (Error ''offline''),
      account_logout = Some (Error ''offline''),
      realtime_disconnect = Some (Error ''offline''),
      fbns_disconnect = Some (Error ''offline'')\<rparr>"

definition msg :: "string \<Rightarrow> string \<Rightarrow> string \<Rightarrow> rat \<Rightarrow> event_data" where
  "msg i u t ts =
     \<lparr>ev_message = Some \<lparr>item_id = Some i, user_id = Some u, thread_id = Some t,
                          timestamp = Some ts, item_text = None\<rparr>,
      ev_thread = None\<rparr>"

definition ex_seconds_msg :: event_data where
  "ex_seconds_msg = msg ''1'' ''7'' ''t'' 1699999995"

definition ex_millis_msg :: event_data where
  "ex_millis_msg = msg ''1'' ''7'' ''t'' 1699999995000"

definition ex_micros_msg :: event_data where
  "ex_micros_msg = msg ''1'' ''7'' ''t'' 1699999995000000"

definition throwing :: env where
  "throwing = offline\<lparr>listener := (\<lambda>_. Some (Error ''listener failed''))\<rparr>"

definition ex_micros_msg2 :: event_data where
  "ex_micros_msg2 = msg ''2'' ''7'' ''t'' 1699999996000000"

definition ex_incomplete_payload :: message_payload where
  "ex_incomplete_payload =
     \<lparr>item_id = Some ''9'', user_id = None, thread_id = Some ''t'',
      timestamp = Some 1699999995000000, item_text = None\<rparr>"

definition ex_incomplete_msg :: event_data where
  "ex_incomplete_msg = \<lparr>ev_message = Some ex_incomplete_payload, ev_thread = None\<rparr>"

definition ex_complete_msg :: event_data where
  "ex_complete_msg = msg ''9'' ''7'' ''t'' 1699999995000000"

text \<open>Clients whose dedup set holds one identifier, and none.\<close>

definition one_id_client :: client where
  "one_id_client = Client (default_options\<lparr>maxProcessedMessageIds := 1\<rparr>)"

definition no_id_client :: client where
  "no_id_client = Client (default_options\<lparr>maxProcessedMessageIds := 0\<rparr>)"

section \<open>Observations on the caches\<close>

text \<open>The fields of the user cached under an identifier, none when it is not cached.\<close>

definition cached_user_fields :: "client \<Rightarrow> jsid \<Rightarrow> string \<Rightarrow> string option" where
  "cached_user_fields s userID f =
     (case coll_get (cache_users s) userID of
        None \<Rightarrow> None
      | Some r \<Rightarrow> map_of (u_data (users_heap s r)) f)"

text \<open>The payload of the message a chat holds under an identifier, if it holds one.\<close>

definition cached_message_data :: "client \<Rightarrow> ref \<Rightarrow> jsid \<Rightarrow> message_payload option" where
  "cached_message_data s cr k =
     (case coll_get (c_messages (chats_heap s cr)) k of
        None \<Rightarrow> None
      | Some mr \<Rightarrow> Some (m_data (messages_heap s mr)))"

text \<open>Payloads applied in call order: the first creates the message, the others patch it.\<close>

definition patch_all :: "message_payload option \<Rightarrow> message_payload list \<Rightarrow> message_payload option" where
  "patch_all before ps =
     foldl (\<lambda>acc p. Some (case acc of None \<Rightarrow> p | Some q \<Rightarrow> patch_message_payload q p)) before ps"

definition ex_user_payloads :: "user_payload list" where
  "ex_user_payloads =
     [[(''pk'', ''7''), (''username'', ''ann'')],
      [(''full_name'', ''Ann A'')],
      [(''username'', ''anna'')]]"

definition ex_message_payloads :: "message_payload list" where
  "ex_message_payloads =
     [\<lparr>item_id = Some ''1'', user_id = Some ''7'', thread_id = Some ''t'',
       timestamp = Some 5, item_text = Some ''hi''\<rparr>,
      \<lparr>item_id = Some ''1'', user_id = None, thread_id = None,
       timestamp = None, item_text = Some ''hello''\<rparr>]"

section \<open>What the persisted files are worth\<close>

text \<open>
  In the spec's words: a session file is valid when it exists, parses, deserializes
  into a fresh transport session and passes the identity round-trip; a cookie file
  is valid when it parses to a list of records, the cookie jar accepts every record
  that has a domain, and the session with these cookies installed passes the
  round-trip.
\<close>

definition fresh_ig :: ig_state where
  "fresh_ig = \<lparr>ig_session = None, cookieJar = []\<rparr>"

definition session_file_valid :: "env \<Rightarrow> string \<Rightarrow> bool" where
  "session_file_valid e path =
     (fs_access e path = None \<and>
      (case fs_readFile e path of
         Inl _ \<Rightarrow> False
       | Inr Malformed \<Rightarrow> False
       | Inr c \<Rightarrow>
           (case state_deserialize e c fresh_ig of
              Inl _ \<Rightarrow> False
            | Inr g \<Rightarrow> (case currentUser e g of Inl _ \<Rightarrow> False | Inr _ \<Rightarrow> True))))"

text \<open>The transport session a failed session restore leaves behind.\<close>

definition ig_after_session :: "env \<Rightarrow> string \<Rightarrow> ig_state" where
  "ig_after_session e path =
     (if fs_access e path = None then
        (case fs_readFile e path of
           Inl _ \<Rightarrow> fresh_ig
         | Inr Malformed \<Rightarrow> fresh_ig
         | Inr c \<Rightarrow> (case state_deserialize e c fresh_ig of Inl _ \<Rightarrow> fresh_ig | Inr g \<Rightarrow> g))
      else fresh_ig)"

fun jar_after :: "env \<Rightarrow> cookie list \<Rightarrow> ig_state \<Rightarrow> ig_state option" where
  "jar_after e [] g = Some g"
| "jar_after e (c # cs) g =
     (if truthy (tc_domain (toughCookie c)) then
        (case setCookie e (toughCookie c) (cookie_url (toughCookie c)) of
           Some err \<Rightarrow> None
         | None \<Rightarrow>
             jar_after e cs
               (g\<lparr>cookieJar := cookieJar g @ [(toughCookie c, cookie_url (toughCookie c))]\<rparr>))
      else jar_after e cs g)"

definition cookie_file_valid :: "env \<Rightarrow> string \<Rightarrow> ig_state \<Rightarrow> bool" where
  "cookie_file_valid e path g =
     (case fs_readFile e path of
        Inr (Json_array cs) \<Rightarrow>
          (case jar_after e cs g of
             None \<Rightarrow> False
           | Some g' \<Rightarrow> (case currentUser e g' of Inl _ \<Rightarrow> False | Inr _ \<Rightarrow> True))
      | _ \<Rightarrow> False)"

text \<open>The session a cookie-based login serializes, when there is one to serialize.\<close>

definition cookie_session :: "env \<Rightarrow> string \<Rightarrow> ig_state \<Rightarrow> string option" where
  "cookie_session e path g =
     (case fs_readFile e path of
        Inr (Json_array cs) \<Rightarrow>
          (case jar_after e cs g of
             None \<Rightarrow> None
           | Some g' \<Rightarrow> (case state_serialize e g' of Inl _ \<Rightarrow> None | Inr ser \<Rightarrow> Some ser))
      | _ \<Rightarrow> None)"

text \<open>
  What the rest of \<open>login\<close> needs once a restore path has validated: the lookup of
  the account and the inbox request answer, and the listeners of \<open>debug\<close> and
  \<open>connected\<close> do not throw.
\<close>

definition login_rest_ok :: "env \<Rightarrow> bool" where
  "login_rest_ok e =
     ((case usernameinfo e (or_default (IG_USERNAME e) ''default'') of
         Inl _ \<Rightarrow> False
       | Inr response \<Rightarrow>
           (case user_info e (map_of response ''pk'') of Inl _ \<Rightarrow> False | Inr _ \<Rightarrow> True))
      \<and> directInbox_request e = None
      \<and> listener e (Debug ''logged'') = None
      \<and> listener e Connected = None)"

text \<open>Example worlds: no session file and a good cookie file; neither file.\<close>

definition ex_cookie :: cookie where
  "ex_cookie = \<lparr>ck_name = ''sessionid'', ck_value = ''abc'',
                 ck_domain = Some ''.instagram.com'', ck_path = None,
                 ck_secure = None, ck_httpOnly = Some False\<rparr>"

definition cookies_only :: env where
  "cookies_only = offline
     \<lparr>fs_readFile := (\<lambda>p. if p = ''./cookies.json'' then Inr (Json_array [ex_cookie])
                          else Inl (Error ''ENOENT'')),
      fs_writeFile := (\<lambda>_. None),
      currentUser := (\<lambda>g. if cookieJar g = [] then Inl (Error ''login_required'')
                           else Inr [(''pk'', ''7'')]),
      state_serialize := (\<lambda>g. Inr ''serialized'')\<rparr>"

definition session_only :: env where
  "session_only = offline
     \<lparr>fs_access := (\<lambda>p. if p = ''./session.json'' then None else Some (Error ''ENOENT'')),
      fs_readFile := (\<lambda>p. if p = ''./session.json'' then Inr (Json_object ''state'')
                          else Inl (Error ''ENOENT'')),
      state_deserialize := (\<lambda>c g. Inr (g\<lparr>ig_session := Some ''state''\<rparr>)),
      currentUser := (\<lambda>g. if ig_session g = None then Inl (Error ''login_required'')
                           else Inr [(''pk'', ''7'')])\<rparr>"

text \<open>A world with a good session file in which the account and the inbox answer.\<close>

definition session_online :: env where
  "session_online = session_only
     \<lparr>usernameinfo := (\<lambda>_. Inr [(''pk'', ''7''), (''username'', ''bot'')]),
      user_info := (\<lambda>_. Inr [(''pk'', ''7''), (''full_name'', ''Bot'')]),
      directInbox_request := None\<rparr>"

section \<open>What most operations leave alone\<close>

text \<open>
  The ready flag, the replay buffer, the dedup set, the options and the pending
  chats are the same in both states, no key has left the chat cache, and the
  emitted events have only been extended.
\<close>

definition frame :: "client \<Rightarrow> client \<Rightarrow> bool" where
  "frame s s' =
     (ready s' = ready s \<and> eventsToReplay s' = eventsToReplay s
      \<and> processedMessageIds s' = processedMessageIds s \<and> options s' = options s
      \<and> cache_pendingChats s' = cache_pendingChats s
      \<and> set (keyArray (cache_chats s)) \<subseteq> set (keyArray (cache_chats s'))
      \<and> prefix (emitted s) (emitted s'))"

text \<open>Every pending chat is also in the chat cache.\<close>

definition pending_in_chats :: "client \<Rightarrow> bool" where
  "pending_in_chats s =
     (set (keyArray (cache_pendingChats s)) \<subseteq> set (keyArray (cache_chats s)))"

text \<open>
  An example world in which login goes through: a good cookie file, the account
  of user 7, one approved thread and one pending thread.
\<close>

definition online :: env where
  "online = cookies_only
     \<lparr>usernameinfo := (\<lambda>_. Inr [(''pk'', ''7''), (''username'', ''bot'')]),
      user_info := (\<lambda>_. Inr [(''pk'', ''7''), (''full_name'', ''Bot'')]),
      directInbox_items := Inr [\<lparr>t_thread_id = Some ''a1'', t_pending = False, t_title = None\<rparr>],
      directPending_items := Inr [\<lparr>t_thread_id = Some ''p1'', t_pending = True, t_title = None\<rparr>],
      directInbox_request := None,
      thread_approve := (\<lambda>_. None),
      thread_decline := (\<lambda>_. None)\<rparr>"

definition ex_topic :: topic where
  "ex_topic = \<lparr>topic_id = ''88''\<rparr>"

definition inbox_topic :: topic where
  "inbox_topic = \<lparr>topic_id = ''146''\<rparr>"

text \<open>The dedup set holds distinct, non-empty identifiers, at most the configured number.\<close>

definition window_ok :: "client \<Rightarrow> bool" where
  "window_ok s =
     (distinct (processedMessageIds s) \<and> [] \<notin> set (processedMessageIds s)
      \<and> length (processedMessageIds s) \<le> maxProcessedMessageIds (options s))"

text \<open>
  What an operation that may change the ready flag or the pending chats keeps:
  the replay buffer, the dedup set and the options, and the inclusion of the
  pending chats in the chat cache.
\<close>

definition kept :: "client \<Rightarrow> client \<Rightarrow> bool" where
  "kept s s' =
     (eventsToReplay s' = eventsToReplay s
      \<and> processedMessageIds s' = processedMessageIds s \<and> options s' = options s
      \<and> (pending_in_chats s \<longrightarrow> pending_in_chats s'))"

text \<open>What every step of the state machine guarantees.\<close>

definition step_ok :: "env \<Rightarrow> input \<Rightarrow> client \<Rightarrow> client \<Rightarrow> bool" where
  "step_ok e i s s' =
     ((window_ok s \<longrightarrow> window_ok s')
      \<and> (pending_in_chats s \<longrightarrow> pending_in_chats s')
      \<and> (ready s' \<longrightarrow> ready s \<or> (i = Connect_resolved \<and> awaiting_connect s))
      \<and> (ready s \<longrightarrow> eventsToReplay s' = eventsToReplay s \<or> eventsToReplay s' = []))"

definition registered :: client where
  "registered = registerRealtimeHandlers (Client default_options)"

definition after_login :: client where
  "after_login = run [(online, Login)] (Client default_options)"

definition lifecycle :: "(env \<times> input) list" where
  "lifecycle =
     [(online, Login), (online, Connect_resolved), (online, Close_event),
      (online, Receive_event ex_topic ''payload'')]"

text \<open>The same outcome with the ready flag of its state set.\<close>

definition set_ready :: "bool \<Rightarrow> 'a outcome \<Rightarrow> 'a outcome" where
  "set_ready b r =
     (case r of
        Return u s \<Rightarrow> Return u (s\<lparr>ready := b\<rparr>)
      | Throws err s \<Rightarrow> Throws err (s\<lparr>ready := b\<rparr>))"

definition ex_push :: fbns_data where
  "ex_push = \<lparr>pushCategory = ''direct_v2_pending'', sourceUserId = ''7''\<rparr>"

definition ex_follower_push :: fbns_data where
  "ex_follower_push = \<lparr>pushCategory = ''new_follower'', sourceUserId = ''7''\<rparr>"

section \<open>Properties of the deduplication window\<close>

lemma window_ok_Client: "window_ok (Client opts)"
  by (simp add: window_ok_def Client_def)

lemma isNew_options: "options (snd (isNewMessageById m s)) = options s"
  by (auto simp: isNewMessageById_def logMsg_def Let_def split: option.splits list.splits)

lemma isNew_window:
  "processedMessageIds (snd (isNewMessageById m s)) =
     (if truthy m \<and> the m \<notin> set (processedMessageIds s) then
        (if length (processedMessageIds s) < maxProcessedMessageIds (options s)
         then processedMessageIds s @ [the m]
         else tl (processedMessageIds s @ [the m]))
      else processedMessageIds s)"
  by (cases "processedMessageIds s")
     (auto simp: isNewMessageById_def logMsg_def Let_def truthy_def split: option.splits)

lemma window_ok_isNew:
  assumes "window_ok s"
  shows "window_ok (snd (isNewMessageById m s))"
proof (cases "truthy m \<and> the m \<notin> set (processedMessageIds s)")
  case False
  then have "processedMessageIds (snd (isNewMessageById m s)) = processedMessageIds s"
    by (simp only: isNew_window if_False)
  then show ?thesis using assms
    by (simp add: window_ok_def isNew_options)
next
  case True
  then have ne: "the m \<noteq> []" by (auto simp: truthy_def split: option.splits)
  show ?thesis
  proof (cases "processedMessageIds s")
    case Nil
    then show ?thesis using True ne assms
      by (simp add: window_ok_def isNew_window isNew_options)
  next
    case (Cons x xs)
    then show ?thesis using True ne assms
      by (auto simp: window_ok_def isNew_window isNew_options)
  qed
qed

lemma isNew_calls_Cons_snd:
  "snd (isNew_calls (m # ms) s) = snd (isNew_calls ms (snd (isNewMessageById m s)))"
  by (auto split: prod.splits)

lemma window_ok_calls: "window_ok s \<Longrightarrow> window_ok (snd (isNew_calls ms s))"
proof (induction ms arbitrary: s)
  case Nil
  then show ?case by simp
next
  case (Cons m ms)
  from Cons.prems have "window_ok (snd (isNewMessageById m s))"
    by (rule window_ok_isNew)
  from Cons.IH [OF this] show ?case
    by (simp only: isNew_calls_Cons_snd)
qed

lemma isNew_calls_options: "options (snd (isNew_calls ms s)) = options s"
proof (induction ms arbitrary: s)
  case Nil
  then show ?case by simp
next
  case (Cons m ms)
  have "options (snd (isNew_calls ms (snd (isNewMessageById m s)))) = options s"
    by (simp add: Cons.IH isNew_options)
  then show ?case by (simp only: isNew_calls_Cons_snd)
qed

lemma isNew_result:
  "m \<noteq> [] \<Longrightarrow> fst (isNewMessageById (Some m) s) = (m \<notin> set (processedMessageIds s))"
  by (auto simp: isNewMessageById_def Let_def split: list.splits)

lemma isNew_seen_unchanged:
  "m \<in> set (processedMessageIds s) \<Longrightarrow> m \<noteq> [] \<Longrightarrow> isNewMessageById (Some m) s = (False, s)"
  by (simp add: isNewMessageById_def)

text \<open>
  C6. Starting from a new client, after any sequence of \<open>isNewMessageById\<close> calls:
  the dedup set holds at most \<open>maxProcessedMessageIds\<close> identifiers; a missing
  identifier is reported new and nothing is inserted; a non-empty identifier is
  reported new exactly when it is not in the set; seeing an identifier of the set
  again leaves the client unchanged (its position is not refreshed); a new
  identifier is appended and, when the set was full, exactly the oldest identifier
  is dropped, which is then reported new at its next occurrence.
\<close>

theorem dedup_window_fifo:
  assumes "s = snd (isNew_calls calls (Client opts))"
  shows "length (processedMessageIds s) \<le> maxProcessedMessageIds opts
     \<and> isNewMessageById None s = (True, logMsg ''WARN'' ''Attempted to check message ID, but ID was missing.'' s)
     \<and> (\<forall>m. m \<noteq> [] \<longrightarrow>
           fst (isNewMessageById (Some m) s) = (m \<notin> set (processedMessageIds s))
         \<and> (m \<in> set (processedMessageIds s) \<longrightarrow> snd (isNewMessageById (Some m) s) = s)
         \<and> (m \<notin> set (processedMessageIds s) \<longrightarrow>
              processedMessageIds (snd (isNewMessageById (Some m) s)) =
                (if length (processedMessageIds s) < maxProcessedMessageIds opts
                 then processedMessageIds s @ [m]
                 else tl (processedMessageIds s @ [m]))
            \<and> (length (processedMessageIds s) = maxProcessedMessageIds opts \<longrightarrow>
                 hd (processedMessageIds s @ [m])
                   \<notin> set (processedMessageIds (snd (isNewMessageById (Some m) s)))
               \<and> fst (isNewMessageById (Some (hd (processedMessageIds s @ [m])))
                       (snd (isNewMessageById (Some m) s))))))"
proof -
  have ok: "window_ok s"
    unfolding assms by (rule window_ok_calls [OF window_ok_Client])
  have opts: "options s = opts"
    unfolding assms by (simp add: isNew_calls_options Client_def)
  from ok opts have len: "length (processedMessageIds s) \<le> maxProcessedMessageIds opts"
    by (simp add: window_ok_def)
  have none: "isNewMessageById None s = (True, logMsg ''WARN'' ''Attempted to check message ID, but ID was missing.'' s)"
    by (simp add: isNewMessageById_def)
  have main: "fst (isNewMessageById (Some m) s) = (m \<notin> set (processedMessageIds s))
         \<and> (m \<in> set (processedMessageIds s) \<longrightarrow> snd (isNewMessageById (Some m) s) = s)
         \<and> (m \<notin> set (processedMessageIds s) \<longrightarrow>
              processedMessageIds (snd (isNewMessageById (Some m) s)) =
                (if length (processedMessageIds s) < maxProcessedMessageIds opts
                 then processedMessageIds s @ [m]
                 else tl (processedMessageIds s @ [m]))
            \<and> (length (processedMessageIds s) = maxProcessedMessageIds opts \<longrightarrow>
                 hd (processedMessageIds s @ [m])
                   \<notin> set (processedMessageIds (snd (isNewMessageById (Some m) s)))
               \<and> fst (isNewMessageById (Some (hd (processedMessageIds s @ [m])))
                       (snd (isNewMessageById (Some m) s)))))" if ne: "m \<noteq> []" for m
  proof (intro conjI impI)
    show "fst (isNewMessageById (Some m) s) = (m \<notin> set (processedMessageIds s))"
      using ne by (rule isNew_result)
  next
    assume "m \<in> set (processedMessageIds s)"
    then show "snd (isNewMessageById (Some m) s) = s"
      using ne by (simp add: isNew_seen_unchanged)
  next
    assume notin: "m \<notin> set (processedMessageIds s)"
    then show w: "processedMessageIds (snd (isNewMessageById (Some m) s)) =
                (if length (processedMessageIds s) < maxProcessedMessageIds opts
                 then processedMessageIds s @ [m]
                 else tl (processedMessageIds s @ [m]))"
      using ne opts by (simp add: isNew_window truthy_def)
    assume full: "length (processedMessageIds s) = maxProcessedMessageIds opts"
    have d: "distinct (processedMessageIds s @ [m])"
      using ok notin by (simp add: window_ok_def)
    have e: "[] \<notin> set (processedMessageIds s @ [m])"
      using ok ne by (auto simp: window_ok_def)
    from w full have w': "processedMessageIds (snd (isNewMessageById (Some m) s)) = tl (processedMessageIds s @ [m])"
      by simp
    show h: "hd (processedMessageIds s @ [m]) \<notin> set (processedMessageIds (snd (isNewMessageById (Some m) s)))"
      unfolding w' using d by (cases "processedMessageIds s @ [m]") auto
    have hne: "hd (processedMessageIds s @ [m]) \<noteq> []"
      using e by (cases "processedMessageIds s @ [m]") auto
    show "fst (isNewMessageById (Some (hd (processedMessageIds s @ [m]))) (snd (isNewMessageById (Some m) s)))"
      using h hne by (simp add: isNew_result)
  qed
  from len none main show ?thesis by blast
qed

theorem dedup_window_fifo_witness:
  "processedMessageIds (snd (isNew_calls ex_calls (Client ex_opts))) = [''b'', ''c'']
   \<and> length (processedMessageIds (snd (isNew_calls ex_calls (Client ex_opts))))
        = maxProcessedMessageIds ex_opts
   \<and> fst (isNewMessageById (Some ''d'') (snd (isNew_calls ex_calls (Client ex_opts))))
   \<and> \<not> fst (isNewMessageById (Some ''c'') (snd (isNew_calls ex_calls (Client ex_opts))))
   \<and> processedMessageIds
        (snd (isNewMessageById (Some ''d'') (snd (isNew_calls ex_calls (Client ex_opts)))))
        = [''c'', ''d'']
   \<and> fst (isNewMessageById (Some ''b'')
        (snd (isNewMessageById (Some ''d'') (snd (isNew_calls ex_calls (Client ex_opts))))))"
proof -
  have w: "processedMessageIds (snd (isNew_calls ex_calls (Client ex_opts))) = [''b'', ''c'']"
    by (simp add: ex_calls_def ex_opts_def Client_def isNewMessageById_def logMsg_def
        default_options_def)
  have m: "maxProcessedMessageIds ex_opts = 2"
    by (simp add: ex_opts_def)
  from dedup_window_fifo [OF refl, of ex_calls ex_opts] w m
  have "fst (isNewMessageById (Some ''d'') (snd (isNew_calls ex_calls (Client ex_opts))))"
    and "\<not> fst (isNewMessageById (Some ''c'') (snd (isNew_calls ex_calls (Client ex_opts))))"
    and "processedMessageIds
        (snd (isNewMessageById (Some ''d'') (snd (isNew_calls ex_calls (Client ex_opts)))))
        = [''c'', ''d'']"
    and "fst (isNewMessageById (Some ''b'')
        (snd (isNewMessageById (Some ''d'') (snd (isNew_calls ex_calls (Client ex_opts))))))"
    by simp_all
  with w m show ?thesis by simp
qed

section \<open>Properties of message ingestion\<close>

lemma processMessage_returns: "returns (processMessage e mp d s)"
  by (simp add: processMessage_def returns_def split: outcome.splits)

lemma handleMessageWrapper_returns: "returns (handleMessageWrapper e d s)"
  by (simp add: handleMessageWrapper_def returns_def split: outcome.splits)

lemma returns_Return: "returns r \<Longrightarrow> r = Return () (state_of r)"
  by (cases r) (simp_all add: returns_def state_of_def)

lemma deliver_all: "deliver_messages evs s = Return () (fold (\<lambda>(e, d) s. state_of (handleMessageWrapper e d s)) evs s)"
proof (induction evs arbitrary: s)
  case Nil
  then show ?case by simp
next
  case (Cons ev evs)
  obtain e d where ev: "ev = (e, d)" by (cases ev)
  from handleMessageWrapper_returns [of e d s]
  obtain s' where h: "handleMessageWrapper e d s = Return () s'"
    by (cases "handleMessageWrapper e d s") (simp_all add: returns_def)
  show ?case by (simp add: ev h Cons.IH state_of_def)
qed

lemma emitted_logMsg [simp]: "emitted (logMsg l m s) = emitted s"
  by (simp add: logMsg_def)

lemma fetchChat_emitted: "emitted (state_of (fetchChat e c f s)) = emitted s"
  by (simp add: fetchChat_def with_ig_def state_of_def Let_def split: sum.splits)

lemma minimal_chat_emitted: "emitted (snd (minimal_chat t s)) = emitted s"
  by (simp add: minimal_chat_def Let_def)

lemma resolve_chat_emitted: "emitted (snd (resolve_chat e t s)) = emitted s"
proof (cases "coll_get (cache_chats s) t")
  case (Some r)
  then show ?thesis by (simp add: resolve_chat_def)
next
  case None
  show ?thesis
  proof (cases "fetchChat e t False s")
    case (Return x s1)
    with fetchChat_emitted [of e t False s] have "emitted s1 = emitted s"
      by (simp add: state_of_def)
    then show ?thesis using None Return
      by (cases x) (simp_all add: resolve_chat_def minimal_chat_emitted)
  next
    case (Throws err s1)
    with fetchChat_emitted [of e t False s] have "emitted s1 = emitted s"
      by (simp add: state_of_def)
    then show ?thesis using None Throws
      by (simp add: resolve_chat_def minimal_chat_emitted)
  qed
qed

lemma upsert_message_emitted: "emitted (snd (upsert_message t cr p s)) = emitted s"
  by (simp add: upsert_message_def Let_def split: option.splits)

lemma upsert_message_timestamp:
  "timestamp p = Some ts \<Longrightarrow>
   timestamp (m_data (messages_heap (snd (upsert_message t cr p s)) (fst (upsert_message t cr p s)))) = Some ts"
  by (simp add: upsert_message_def Let_def Message_new_def Message_patch_def
      patch_message_payload_def over_def split: option.splits)


lemma processMessage_emitted:
  assumes "truthy (user_id p)" "truthy (item_id p)"
    and "truthy (js_or (case ev_thread d of None \<Rightarrow> None | Some t \<Rightarrow> t_thread_id t) (thread_id p))"
  shows "\<exists>mr. emitted (state_of (processMessage e (Some p) d s)) =
           (if isMessageValid e (messages_heap (state_of (processMessage e (Some p) d s)) mr)
            then emitted s @ [MessageCreate mr] else emitted s)
         \<and> (\<forall>ts. timestamp p = Some ts \<longrightarrow>
               timestamp (m_data (messages_heap (state_of (processMessage e (Some p) d s)) mr)) = Some ts)"
proof -
  let ?t = "js_or (case ev_thread d of None \<Rightarrow> None | Some t \<Rightarrow> t_thread_id t) (thread_id p)"
  obtain cr s1 where rc: "resolve_chat e ?t s = (cr, s1)" by (cases "resolve_chat e ?t s")
  obtain mr s2 where um: "upsert_message ?t cr p s1 = (mr, s2)" by (cases "upsert_message ?t cr p s1")
  from resolve_chat_emitted [of e ?t s] rc have e1: "emitted s1 = emitted s" by simp
  from upsert_message_emitted [of ?t cr p s1] um have e2: "emitted s2 = emitted s1" by simp
  have ts: "timestamp (m_data (messages_heap s2 mr)) = Some ts" if "timestamp p = Some ts" for ts
    using upsert_message_timestamp [OF that, of ?t cr s1] um by simp
  have tr: "processMessage_try e (Some p) d s =
      (if isMessageValid e (messages_heap s2 mr) then emit e (MessageCreate mr) s2 else Return () s2)"
    using assms by (simp add: processMessage_try_def Let_def rc um)
  have st: "messages_heap (state_of (processMessage e (Some p) d s)) = messages_heap s2"
    by (simp add: processMessage_def tr state_of_def emit_def Let_def logMsg_def split: option.splits)
  have em: "emitted (state_of (processMessage e (Some p) d s)) =
           (if isMessageValid e (messages_heap s2 mr)
            then emitted s @ [MessageCreate mr] else emitted s)"
    by (simp add: processMessage_def tr state_of_def emit_def Let_def logMsg_def e1 e2 split: option.splits)
  show ?thesis
    by (rule exI [of _ mr]) (simp add: st em ts)
qed

lemma handleMessageWrapper_new:
  assumes "ev_message d = Some p" "item_id p = Some i" "i \<noteq> []" "i \<notin> set (processedMessageIds s)"
  shows "handleMessageWrapper e d s =
     processMessage e (Some p) d
       (logMsg ''INFO'' ''Processing new message (by ID)...'' (snd (isNewMessageById (Some i) s)))"
proof -
  from assms(3,4) have "fst (isNewMessageById (Some i) s)" by (simp add: isNew_result)
  then obtain s1 where n: "isNewMessageById (Some i) s = (True, s1)"
    by (cases "isNewMessageById (Some i) s") simp
  have "handleMessageWrapper_try e d s =
      processMessage e (Some p) d (logMsg ''INFO'' ''Processing new message (by ID)...'' s1)"
    by (simp add: handleMessageWrapper_try_def assms(1,2) n)
  moreover from processMessage_returns
  obtain s' where "processMessage e (Some p) d (logMsg ''INFO'' ''Processing new message (by ID)...'' s1)
     = Return () s'"
    by (metis returns_Return)
  ultimately show ?thesis by (simp add: handleMessageWrapper_def n)
qed

lemma isNew_emitted: "emitted (snd (isNewMessageById m s)) = emitted s"
  by (auto simp: isNewMessageById_def Let_def split: option.splits list.splits)

text \<open>
  What the code does with a message event that passes deduplication and validation:
  \<open>messageCreate\<close> is emitted exactly when \<open>Util.isMessageValid\<close> accepts the cached
  message, and \<open>Util.isMessageValid\<close> divides a timestamp above \<open>10^12\<close> by 1000, takes
  any other timestamp as it is, and compares the result plus 10,000,000 with the
  current time.
\<close>

lemma messageCreate_iff_isMessageValid:
  assumes "ev_message d = Some p" and "item_id p = Some i" and "i \<noteq> []"
    and "i \<notin> set (processedMessageIds s)"
    and "truthy (user_id p)"
    and "truthy (js_or (case ev_thread d of None \<Rightarrow> None | Some t \<Rightarrow> t_thread_id t) (thread_id p))"
  shows "\<exists>mr.
      emitted (state_of (handleMessageWrapper e d s)) =
        (if isMessageValid e (messages_heap (state_of (handleMessageWrapper e d s)) mr)
         then emitted s @ [MessageCreate mr] else emitted s)
    \<and> (\<forall>ts. timestamp p = Some ts \<longrightarrow>
          isMessageValid e (messages_heap (state_of (handleMessageWrapper e d s)) mr) =
            ((if ts > 10 ^ 12 then ts / 1000 else ts) + 10000000 > now e))"
proof -
  let ?s0 = "logMsg ''INFO'' ''Processing new message (by ID)...'' (snd (isNewMessageById (Some i) s))"
  let ?s' = "state_of (handleMessageWrapper e d s)"
  have h: "handleMessageWrapper e d s = processMessage e (Some p) d ?s0"
    using assms(1-4) by (rule handleMessageWrapper_new)
  have e0: "emitted ?s0 = emitted s"
    by (simp add: isNew_emitted)
  from assms(2,3) have ti: "truthy (item_id p)" by (simp add: truthy_def)
  from processMessage_emitted [OF assms(5) ti assms(6), of e ?s0]
  obtain mr where em: "emitted ?s' =
        (if isMessageValid e (messages_heap ?s' mr) then emitted s @ [MessageCreate mr] else emitted s)"
    and ts: "\<And>ts. timestamp p = Some ts \<Longrightarrow> timestamp (m_data (messages_heap ?s' mr)) = Some ts"
    unfolding h e0 by blast
  have v: "isMessageValid e (messages_heap ?s' mr) =
      ((if ts > 10 ^ 12 then ts / 1000 else ts) + 10000000 > now e)" if "timestamp p = Some ts" for ts
    using ts [OF that] by (simp add: isMessageValid_def Let_def)
  from em v show ?thesis by blast
qed

text \<open>
  C1. The scenario of the claim fails on the code. The current time is
  1700000000000 ms and the message carries the millisecond timestamp
  1699999995000, 5 seconds in the past, so the timestamp plus the grace window
  exceeds the current time. The message passes deduplication and validation and is
  cached, but \<open>Util.isMessageValid\<close> rejects it and \<open>messageCreate\<close> is not emitted:
  a millisecond timestamp of today lies above the threshold \<open>10^12\<close>, and the
  division by 1000 that the code's comment reserves for microsecond timestamps is
  applied to it.
\<close>

theorem millis_scale_recent_message_rejected:
  "1699999995000 + 5000 = now offline
   \<and> timestamp (m_data (messages_heap
        (state_of (handleMessageWrapper offline ex_millis_msg (Client default_options))) 1))
       = Some 1699999995000
   \<and> \<not> isMessageValid offline (messages_heap
        (state_of (handleMessageWrapper offline ex_millis_msg (Client default_options))) 1)
   \<and> processedMessageIds
        (state_of (handleMessageWrapper offline ex_millis_msg (Client default_options))) = [''1'']
   \<and> cache_messages (state_of (handleMessageWrapper offline ex_millis_msg (Client default_options)))
       = [(Some ''1'', 1)]
   \<and> emitted (state_of (handleMessageWrapper offline ex_millis_msg (Client default_options))) = []"
  by (simp add: offline_def ex_millis_msg_def msg_def Client_def default_options_def
     handleMessageWrapper_def handleMessageWrapper_try_def isNewMessageById_def logMsg_def
     processMessage_def processMessage_try_def truthy_def js_or_def resolve_chat_def
     coll_get_def coll_has_def coll_set_def fetchChat_def with_ig_def minimal_chat_def upsert_message_def
     Chat_new_def Message_new_def isMessageValid_def state_of_def Let_def)

text \<open>
  The same instant as a microsecond timestamp is accepted, and as a seconds
  timestamp it is rejected: the code has no conversion for seconds-scale values.
\<close>

lemma micros_accepted_seconds_rejected:
  "emitted (state_of (handleMessageWrapper offline ex_micros_msg (Client default_options)))
     = [MessageCreate 1]
   \<and> cache_messages (state_of (handleMessageWrapper offline ex_seconds_msg (Client default_options)))
       = [(Some ''1'', 1)]
   \<and> emitted (state_of (handleMessageWrapper offline ex_seconds_msg (Client default_options))) = []"
  by (simp add: offline_def ex_micros_msg_def ex_seconds_msg_def msg_def Client_def default_options_def
     handleMessageWrapper_def handleMessageWrapper_try_def isNewMessageById_def logMsg_def
     processMessage_def processMessage_try_def truthy_def js_or_def resolve_chat_def emit_def
     coll_get_def coll_has_def coll_set_def fetchChat_def with_ig_def minimal_chat_def upsert_message_def
     Chat_new_def Message_new_def isMessageValid_def state_of_def Let_def)

section \<open>Error isolation and the dedup window under delivery\<close>

lemma window_logMsg [simp]:
  "processedMessageIds (logMsg l m s) = processedMessageIds s"
  "options (logMsg l m s) = options s"
  by (simp_all add: logMsg_def)

lemma fetchChat_window:
  "processedMessageIds (state_of (fetchChat e c f s)) = processedMessageIds s
   \<and> options (state_of (fetchChat e c f s)) = options s"
  by (simp add: fetchChat_def with_ig_def state_of_def Let_def split: sum.splits)

lemma minimal_chat_window:
  "processedMessageIds (snd (minimal_chat t s)) = processedMessageIds s
   \<and> options (snd (minimal_chat t s)) = options s"
  by (simp add: minimal_chat_def Let_def)

lemma resolve_chat_window:
  "processedMessageIds (snd (resolve_chat e t s)) = processedMessageIds s
   \<and> options (snd (resolve_chat e t s)) = options s"
proof (cases "coll_get (cache_chats s) t")
  case (Some r)
  then show ?thesis by (simp add: resolve_chat_def)
next
  case None
  show ?thesis
  proof (cases "fetchChat e t False s")
    case (Return x s1)
    with fetchChat_window [of e t False s]
    have "processedMessageIds s1 = processedMessageIds s \<and> options s1 = options s"
      by (simp add: state_of_def)
    then show ?thesis using None Return
      by (cases x) (simp_all add: resolve_chat_def minimal_chat_window)
  next
    case (Throws err s1)
    with fetchChat_window [of e t False s]
    have "processedMessageIds s1 = processedMessageIds s \<and> options s1 = options s"
      by (simp add: state_of_def)
    then show ?thesis using None Throws
      by (simp add: resolve_chat_def minimal_chat_window)
  qed
qed

lemma upsert_message_window:
  "processedMessageIds (snd (upsert_message t cr p s)) = processedMessageIds s
   \<and> options (snd (upsert_message t cr p s)) = options s"
  by (simp add: upsert_message_def Let_def split: option.splits)

lemma emit_window:
  "processedMessageIds (state_of (emit e ev s)) = processedMessageIds s
   \<and> options (state_of (emit e ev s)) = options s"
  by (simp add: emit_def state_of_def Let_def split: option.splits)

lemma processMessage_try_window:
  "processedMessageIds (state_of (processMessage_try e mp d s)) = processedMessageIds s
   \<and> options (state_of (processMessage_try e mp d s)) = options s"
proof (cases mp)
  case None
  then show ?thesis by (simp add: processMessage_try_def state_of_def)
next
  case (Some p)
  let ?t = "js_or (case ev_thread d of None \<Rightarrow> None | Some t \<Rightarrow> t_thread_id t) (thread_id p)"
  obtain cr s1 where rc: "resolve_chat e ?t s = (cr, s1)" by (cases "resolve_chat e ?t s")
  obtain mr s2 where um: "upsert_message ?t cr p s1 = (mr, s2)" by (cases "upsert_message ?t cr p s1")
  from resolve_chat_window [of e ?t s] rc
  have 1: "processedMessageIds s1 = processedMessageIds s \<and> options s1 = options s" by simp
  from upsert_message_window [of ?t cr p s1] um
  have 2: "processedMessageIds s2 = processedMessageIds s1 \<and> options s2 = options s1" by simp
  show ?thesis
    using Some 1 2 emit_window [of e "MessageCreate mr" s2]
    by (simp add: processMessage_try_def Let_def rc um state_of_def)
qed

lemma processMessage_window:
  "processedMessageIds (state_of (processMessage e mp d s)) = processedMessageIds s
   \<and> options (state_of (processMessage e mp d s)) = options s"
  using processMessage_try_window [of e mp d s]
  by (cases "processMessage_try e mp d s") (simp_all add: processMessage_def state_of_def)

lemma handleMessageWrapper_window:
  "processedMessageIds (state_of (handleMessageWrapper e d s)) =
     (case ev_message d of
        None \<Rightarrow> processedMessageIds s
      | Some p \<Rightarrow> processedMessageIds (snd (isNewMessageById (item_id p) s)))
   \<and> options (state_of (handleMessageWrapper e d s)) = options s"
proof (cases "ev_message d")
  case None
  then show ?thesis
    by (simp add: handleMessageWrapper_def handleMessageWrapper_try_def state_of_def)
next
  case (Some p)
  obtain b s1 where n: "isNewMessageById (item_id p) s = (b, s1)"
    by (cases "isNewMessageById (item_id p) s")
  from isNew_options [of "item_id p" s] n have o: "options s1 = options s" by simp
  let ?s0 = "logMsg ''INFO'' ''Processing new message (by ID)...'' s1"
  from processMessage_returns [of e "Some p" d ?s0]
  obtain s' where pm: "processMessage e (Some p) d ?s0 = Return () s'"
    by (metis returns_Return)
  from processMessage_window [of e "Some p" d ?s0] pm
  have "processedMessageIds s' = processedMessageIds s1 \<and> options s' = options s1"
    by (simp add: state_of_def)
  then show ?thesis using Some n o pm
    by (cases b) (simp_all add: handleMessageWrapper_def handleMessageWrapper_try_def state_of_def)
qed

lemma window_ok_handleMessageWrapper:
  assumes "window_ok s"
  shows "window_ok (state_of (handleMessageWrapper e d s))"
proof (cases "ev_message d")
  case None
  then show ?thesis using assms handleMessageWrapper_window [of e d s]
    by (simp add: window_ok_def)
next
  case (Some p)
  from window_ok_isNew [OF assms, of "item_id p"] handleMessageWrapper_window [of e d s] Some
  show ?thesis by (simp add: window_ok_def isNew_options)
qed

text \<open>An identifier stays in the window while fewer than max other insertions follow it.\<close>

lemma isNew_keeps:
  assumes "window_ok s"
    and "processedMessageIds s = xs @ i # ys"
    and "Suc (length ys) < maxProcessedMessageIds (options s)"
  shows "\<exists>xs' ys'. processedMessageIds (snd (isNewMessageById m s)) = xs' @ i # ys'
           \<and> length ys' \<le> Suc (length ys)"
proof (cases "truthy m \<and> the m \<notin> set (processedMessageIds s)")
  case False
  then have "processedMessageIds (snd (isNewMessageById m s)) = processedMessageIds s"
    by (simp only: isNew_window if_False)
  with assms(2) show ?thesis by (intro exI [of _ xs] exI [of _ ys]) simp
next
  case True
  show ?thesis
  proof (cases "length (processedMessageIds s) < maxProcessedMessageIds (options s)")
    case t: True
    with True have "processedMessageIds (snd (isNewMessageById m s)) = xs @ i # (ys @ [the m])"
      by (simp add: isNew_window assms(2))
    then show ?thesis by (intro exI [of _ xs] exI [of _ "ys @ [the m]"]) simp
  next
    case f: False
    with assms(2,3) obtain x xs0 where xs: "xs = x # xs0"
      by (cases xs) auto
    from True f have "processedMessageIds (snd (isNewMessageById m s)) = xs0 @ i # (ys @ [the m])"
      by (simp add: isNew_window assms(2) xs)
    then show ?thesis by (intro exI [of _ xs0] exI [of _ "ys @ [the m]"]) simp
  qed
qed

lemma handleMessageWrapper_keeps:
  assumes "window_ok s"
    and "processedMessageIds s = xs @ i # ys"
    and "Suc (length ys) < maxProcessedMessageIds (options s)"
  shows "\<exists>xs' ys'. processedMessageIds (state_of (handleMessageWrapper e d s)) = xs' @ i # ys'
           \<and> length ys' \<le> Suc (length ys)"
proof (cases "ev_message d")
  case None
  then show ?thesis using assms(2) handleMessageWrapper_window [of e d s]
    by (intro exI [of _ xs] exI [of _ ys]) simp
next
  case (Some p)
  with isNew_keeps [OF assms, of "item_id p"] handleMessageWrapper_window [of e d s]
  show ?thesis by simp
qed

lemma deliver_keeps:
  assumes "window_ok s"
    and "processedMessageIds s = xs @ i # ys"
    and "length ys + length evs < maxProcessedMessageIds (options s)"
  shows "i \<in> set (processedMessageIds (state_of (deliver_messages evs s)))"
  using assms
proof (induction evs arbitrary: s xs ys)
  case Nil
  then show ?case by (simp add: state_of_def)
next
  case (Cons ev evs)
  obtain e d where ev: "ev = (e, d)" by (cases ev)
  from handleMessageWrapper_returns [of e d s]
  obtain s' where h: "handleMessageWrapper e d s = Return () s'"
    by (metis returns_Return)
  then have st: "state_of (handleMessageWrapper e d s) = s'" by (simp add: state_of_def)
  from Cons.prems(3) have lt: "Suc (length ys) < maxProcessedMessageIds (options s)" by simp
  from handleMessageWrapper_keeps [OF Cons.prems(1,2) lt, of e d]
  obtain xs' ys' where w: "processedMessageIds s' = xs' @ i # ys'" and l: "length ys' \<le> Suc (length ys)"
    unfolding st by blast
  have ok: "window_ok s'" using window_ok_handleMessageWrapper [OF Cons.prems(1), of e d]
    by (simp only: st)
  have o: "options s' = options s" using handleMessageWrapper_window [of e d s] by (simp add: st)
  from l Cons.prems(3) have "length ys' + length evs < maxProcessedMessageIds (options s')"
    by (simp add: o)
  from Cons.IH [OF ok w this]
  show ?case by (simp add: ev h)
qed


text \<open>
  C9. Processing one message never throws to the caller: \<open>processMessage\<close> catches
  every error of its body and logs it, \<open>handleMessageWrapper\<close> returns for every
  event, and the delivery of a sequence of events runs the handler on every event
  of the sequence, whatever failed before.
\<close>

theorem message_errors_isolated:
  "returns (processMessage e mp d s)
   \<and> returns (handleMessageWrapper e d s)
   \<and> (\<forall>err s'. processMessage_try e mp d s = Throws err s' \<longrightarrow>
         processMessage e mp d s =
           Return () (logMsg ''ERROR'' ''Error processing message into insta.js object'' s'))
   \<and> deliver_messages evs s =
       Return () (fold (\<lambda>(e, d) s. state_of (handleMessageWrapper e d s)) evs s)"
proof -
  have "processMessage e mp d s =
      Return () (logMsg ''ERROR'' ''Error processing message into insta.js object'' s')"
    if "processMessage_try e mp d s = Throws err s'" for err s'
    using that by (simp add: processMessage_def)
  with processMessage_returns [of e mp d s] handleMessageWrapper_returns [of e d s]
    deliver_all [of evs s]
  show ?thesis by blast
qed

theorem message_errors_isolated_witness:
  "processMessage_try throwing (ev_message ex_micros_msg) ex_micros_msg (Client default_options)
     = Throws (Error ''listener failed'')
         (state_of (processMessage_try throwing (ev_message ex_micros_msg) ex_micros_msg
            (Client default_options)))
   \<and> logs (state_of (processMessage throwing (ev_message ex_micros_msg) ex_micros_msg
         (Client default_options)))
       = [(''WARN'', ''Error fetching/creating chat for message''),
          (''ERROR'', ''Error processing message into insta.js object'')]
   \<and> emitted (state_of (deliver_messages [(throwing, ex_micros_msg), (offline, ex_micros_msg2)]
         (Client default_options)))
       = [MessageCreate 1, MessageCreate 2]"
proof -
  have t: "processMessage_try throwing (ev_message ex_micros_msg) ex_micros_msg (Client default_options)
     = Throws (Error ''listener failed'')
         (state_of (processMessage_try throwing (ev_message ex_micros_msg) ex_micros_msg
            (Client default_options)))"
    by (simp add: throwing_def offline_def ex_micros_msg_def msg_def Client_def default_options_def
     logMsg_def processMessage_try_def truthy_def js_or_def resolve_chat_def
     coll_get_def coll_has_def coll_set_def fetchChat_def with_ig_def minimal_chat_def upsert_message_def
     Chat_new_def Message_new_def isMessageValid_def state_of_def Let_def emit_def)
  have l: "logs (logMsg ''ERROR'' ''Error processing message into insta.js object''
         (state_of (processMessage_try throwing (ev_message ex_micros_msg) ex_micros_msg
            (Client default_options))))
       = [(''WARN'', ''Error fetching/creating chat for message''),
          (''ERROR'', ''Error processing message into insta.js object'')]"
    by (simp add: throwing_def offline_def ex_micros_msg_def msg_def Client_def default_options_def
     logMsg_def processMessage_try_def truthy_def js_or_def resolve_chat_def
     coll_get_def coll_has_def coll_set_def fetchChat_def with_ig_def minimal_chat_def upsert_message_def
     Chat_new_def Message_new_def isMessageValid_def state_of_def Let_def emit_def)
  have d: "emitted (fold (\<lambda>(e, d) s. state_of (handleMessageWrapper e d s))
         [(throwing, ex_micros_msg), (offline, ex_micros_msg2)] (Client default_options))
       = [MessageCreate 1, MessageCreate 2]"
    by (simp add: throwing_def offline_def ex_micros_msg_def ex_micros_msg2_def msg_def
     Client_def default_options_def
     handleMessageWrapper_def handleMessageWrapper_try_def isNewMessageById_def logMsg_def
     processMessage_def processMessage_try_def truthy_def js_or_def resolve_chat_def
     coll_get_def coll_has_def coll_set_def fetchChat_def with_ig_def minimal_chat_def upsert_message_def
     Chat_new_def Message_new_def isMessageValid_def state_of_def Let_def emit_def)
  from message_errors_isolated [of throwing "ev_message ex_micros_msg" ex_micros_msg
      "Client default_options" "[(throwing, ex_micros_msg), (offline, ex_micros_msg2)]"] t l d
  show ?thesis by (simp add: state_of_def)
qed

text \<open>
  C10 (amended). In a state whose dedup set is distinct and within its capacity, as
  every state the handlers reach is, and whose capacity is positive: a message event
  that carries a new \<open>item_id\<close> but lacks the sender's \<open>user_id\<close>, or whose thread
  id cannot be resolved, still inserts the \<open>item_id\<close> into the dedup set, changes
  no cache and emits nothing. A complete event with the same \<open>item_id\<close> that
  arrives after fewer than \<open>maxProcessedMessageIds\<close> further message events is
  filtered as a duplicate: the handler only logs, so it is neither cached nor
  emitted.
\<close>

theorem incomplete_event_poisons_dedup:
  assumes "window_ok s" and "0 < maxProcessedMessageIds (options s)"
    and "ev_message d1 = Some p1" and "item_id p1 = Some i" and "i \<noteq> []"
    and "i \<notin> set (processedMessageIds s)"
    and "\<not> truthy (user_id p1) \<or>
         \<not> truthy (js_or (case ev_thread d1 of None \<Rightarrow> None | Some t \<Rightarrow> t_thread_id t)
                      (thread_id p1))"
    and "length evs < maxProcessedMessageIds (options s)"
    and "ev_message d2 = Some p2" and "item_id p2 = Some i"
  shows "i \<in> set (processedMessageIds (state_of (handleMessageWrapper e1 d1 s)))
    \<and> cache_messages (state_of (handleMessageWrapper e1 d1 s)) = cache_messages s
    \<and> cache_chats (state_of (handleMessageWrapper e1 d1 s)) = cache_chats s
    \<and> messages_heap (state_of (handleMessageWrapper e1 d1 s)) = messages_heap s
    \<and> chats_heap (state_of (handleMessageWrapper e1 d1 s)) = chats_heap s
    \<and> emitted (state_of (handleMessageWrapper e1 d1 s)) = emitted s
    \<and> handleMessageWrapper e2 d2
         (state_of (deliver_messages evs (state_of (handleMessageWrapper e1 d1 s)))) =
       Return ()
         (logMsg ''DEBUG'' ''Message filtered as duplicate (by ID)''
            (state_of (deliver_messages evs (state_of (handleMessageWrapper e1 d1 s)))))"
proof -
  let ?n = "snd (isNewMessageById (Some i) s)"
  let ?s0 = "logMsg ''INFO'' ''Processing new message (by ID)...'' ?n"
  let ?s1 = "state_of (handleMessageWrapper e1 d1 s)"
  have h: "handleMessageWrapper e1 d1 s = processMessage e1 (Some p1) d1 ?s0"
    using assms(3-6) by (rule handleMessageWrapper_new)
  have "\<exists>w. processMessage_try e1 (Some p1) d1 ?s0 = Return () (logMsg ''WARN'' w ?s0)"
    using assms(7) by (auto simp: processMessage_try_def Let_def)
  then obtain w where s1: "?s1 = logMsg ''WARN'' w ?s0"
    by (auto simp: h processMessage_def state_of_def)
  have win: "processedMessageIds ?n =
      (if length (processedMessageIds s) < maxProcessedMessageIds (options s)
       then processedMessageIds s @ [i] else tl (processedMessageIds s @ [i]))"
    using assms(5,6) by (simp add: isNew_window truthy_def)
  have "\<exists>xs. processedMessageIds ?n = xs @ [i]"
  proof (cases "length (processedMessageIds s) < maxProcessedMessageIds (options s)")
    case True
    with win show ?thesis by simp
  next
    case False
    with assms(2) obtain x xs where "processedMessageIds s = x # xs"
      by (cases "processedMessageIds s") auto
    with win False show ?thesis by simp
  qed
  then obtain xs where w1: "processedMessageIds ?s1 = xs @ i # []"
    by (auto simp: s1)
  have frame: "cache_messages ?n = cache_messages s \<and> cache_chats ?n = cache_chats s
      \<and> messages_heap ?n = messages_heap s \<and> chats_heap ?n = chats_heap s \<and> emitted ?n = emitted s"
    by (auto simp: isNewMessageById_def logMsg_def Let_def split: list.splits)
  have ok1: "window_ok ?s1"
    using assms(1) by (rule window_ok_handleMessageWrapper)
  have o1: "options ?s1 = options s"
    using handleMessageWrapper_window [of e1 d1 s] by simp
  let ?s2 = "state_of (deliver_messages evs ?s1)"
  have "length ([]::string list) + length evs < maxProcessedMessageIds (options ?s1)"
    using assms(8) by (simp add: o1)
  from deliver_keeps [OF ok1 w1 this]
  have in2: "i \<in> set (processedMessageIds ?s2)" .
  have dup: "handleMessageWrapper e2 d2 ?s2 =
       Return () (logMsg ''DEBUG'' ''Message filtered as duplicate (by ID)'' ?s2)"
    using in2 assms(5,9,10)
    by (simp add: handleMessageWrapper_def handleMessageWrapper_try_def isNew_seen_unchanged)
  from w1 have "i \<in> set (processedMessageIds ?s1)" by simp
  with frame dup show ?thesis by (simp add: s1 logMsg_def)
qed


lemmas eval_defs = offline_def msg_def Client_def default_options_def
     handleMessageWrapper_def handleMessageWrapper_try_def isNewMessageById_def logMsg_def
     processMessage_def processMessage_try_def truthy_def js_or_def resolve_chat_def
     coll_get_def coll_has_def coll_set_def fetchChat_def with_ig_def minimal_chat_def upsert_message_def
     Chat_new_def Message_new_def isMessageValid_def state_of_def Let_def emit_def

theorem incomplete_event_poisons_dedup_witness:
  "processedMessageIds (state_of (handleMessageWrapper offline ex_incomplete_msg
       (Client default_options))) = [''9'']
   \<and> cache_messages (state_of (handleMessageWrapper offline ex_incomplete_msg
       (Client default_options))) = []
   \<and> emitted (state_of (handleMessageWrapper offline ex_complete_msg
       (state_of (deliver_messages [(offline, ex_micros_msg)]
          (state_of (handleMessageWrapper offline ex_incomplete_msg (Client default_options)))))))
       = [MessageCreate 1]
   \<and> cache_messages (state_of (handleMessageWrapper offline ex_complete_msg
       (state_of (deliver_messages [(offline, ex_micros_msg)]
          (state_of (handleMessageWrapper offline ex_incomplete_msg (Client default_options)))))))
       = [(Some ''1'', 1)]"
proof -
  let ?s = "Client default_options"
  let ?p2 = "\<lparr>item_id = Some ''9'', user_id = Some ''7'', thread_id = Some ''t'',
             timestamp = Some 1699999995000000, item_text = None\<rparr>"
  have 1: "window_ok ?s" by (rule window_ok_Client)
  have 2: "0 < maxProcessedMessageIds (options ?s)"
    and 3: "ev_message ex_incomplete_msg = Some ex_incomplete_payload"
    and 4: "item_id ex_incomplete_payload = Some ''9''"
    and 5: "''9'' \<noteq> []"
    and 6: "''9'' \<notin> set (processedMessageIds ?s)"
    and 7: "\<not> truthy (user_id ex_incomplete_payload) \<or>
         \<not> truthy (js_or (case ev_thread ex_incomplete_msg of None \<Rightarrow> None | Some t \<Rightarrow> t_thread_id t)
                      (thread_id ex_incomplete_payload))"
    and 8: "length [(offline, ex_micros_msg)] < maxProcessedMessageIds (options ?s)"
    and 9: "ev_message ex_complete_msg = Some ?p2"
    and 10: "item_id ?p2 = Some ''9''"
    by (simp_all add: Client_def default_options_def ex_incomplete_msg_def
        ex_incomplete_payload_def ex_complete_msg_def msg_def truthy_def)
  have a: "processedMessageIds (state_of (handleMessageWrapper offline ex_incomplete_msg ?s)) = [''9'']
     \<and> cache_messages (state_of (handleMessageWrapper offline ex_incomplete_msg ?s)) = []"
    by (simp add: ex_incomplete_msg_def ex_incomplete_payload_def eval_defs)
  have b: "emitted (state_of (deliver_messages [(offline, ex_micros_msg)]
          (state_of (handleMessageWrapper offline ex_incomplete_msg ?s)))) = [MessageCreate 1]
     \<and> cache_messages (state_of (deliver_messages [(offline, ex_micros_msg)]
          (state_of (handleMessageWrapper offline ex_incomplete_msg ?s)))) = [(Some ''1'', 1)]"
    by (simp add: ex_incomplete_msg_def ex_incomplete_payload_def ex_micros_msg_def eval_defs)
  from incomplete_event_poisons_dedup [OF 1 2 3 4 5 6 7 8 9 10, of offline offline]
  have "handleMessageWrapper offline ex_complete_msg
         (state_of (deliver_messages [(offline, ex_micros_msg)]
            (state_of (handleMessageWrapper offline ex_incomplete_msg ?s)))) =
       Return ()
         (logMsg ''DEBUG'' ''Message filtered as duplicate (by ID)''
            (state_of (deliver_messages [(offline, ex_micros_msg)]
               (state_of (handleMessageWrapper offline ex_incomplete_msg ?s)))))"
    by blast
  then have c: "state_of (handleMessageWrapper offline ex_complete_msg
         (state_of (deliver_messages [(offline, ex_micros_msg)]
            (state_of (handleMessageWrapper offline ex_incomplete_msg ?s))))) =
         logMsg ''DEBUG'' ''Message filtered as duplicate (by ID)''
            (state_of (deliver_messages [(offline, ex_micros_msg)]
               (state_of (handleMessageWrapper offline ex_incomplete_msg ?s))))"
    by (simp add: state_of_def)
  from a b show ?thesis
    unfolding c by (simp add: logMsg_def)
qed

text \<open>
  C10 as stated fails: the suppression lasts only while the identifier is in the
  window. With a dedup set of capacity 1, one message event between the two
  evicts the identifier of the incomplete event, and the later complete event is
  cached and emitted; with capacity 0 the identifier is evicted by its own
  insertion, and the complete event is cached and emitted right after.
\<close>

theorem incomplete_id_evicted_then_processed:
  "processedMessageIds (state_of (handleMessageWrapper offline ex_incomplete_msg one_id_client))
     = [''9'']
   \<and> processedMessageIds (state_of (deliver_messages [(offline, ex_micros_msg)]
        (state_of (handleMessageWrapper offline ex_incomplete_msg one_id_client)))) = [''1'']
   \<and> emitted (state_of (handleMessageWrapper offline ex_complete_msg
        (state_of (deliver_messages [(offline, ex_micros_msg)]
           (state_of (handleMessageWrapper offline ex_incomplete_msg one_id_client))))))
       = [MessageCreate 1, MessageCreate 2]
   \<and> cache_messages (state_of (handleMessageWrapper offline ex_complete_msg
        (state_of (deliver_messages [(offline, ex_micros_msg)]
           (state_of (handleMessageWrapper offline ex_incomplete_msg one_id_client))))))
       = [(Some ''1'', 1), (Some ''9'', 2)]
   \<and> processedMessageIds (state_of (handleMessageWrapper offline ex_incomplete_msg no_id_client))
       = []
   \<and> emitted (state_of (handleMessageWrapper offline ex_complete_msg
        (state_of (handleMessageWrapper offline ex_incomplete_msg no_id_client))))
       = [MessageCreate 1]
   \<and> cache_messages (state_of (handleMessageWrapper offline ex_complete_msg
        (state_of (handleMessageWrapper offline ex_incomplete_msg no_id_client))))
       = [(Some ''9'', 1)]"
  by (simp add: one_id_client_def no_id_client_def ex_incomplete_msg_def ex_incomplete_payload_def
      ex_micros_msg_def ex_complete_msg_def eval_defs)

section \<open>Properties of the entity cache\<close>

lemma merged_field_Nil [simp]: "merged_field [] f b = b"
  by (simp add: merged_field_def)

lemma merged_field_Cons:
  "merged_field (p # ps) f b = merged_field ps f (case map_of p f of None \<Rightarrow> b | Some v \<Rightarrow> Some v)"
  by (cases "filter (\<lambda>p. map_of p f \<noteq> None) ps") (auto simp: merged_field_def)

lemma patchOrCreateUser_result:
  "fst (patchOrCreateUser userID p s) =
     (case coll_get (cache_users s) userID of None \<Rightarrow> next_ref s | Some r \<Rightarrow> r)"
  by (simp add: patchOrCreateUser_def Let_def split: option.splits)

lemma patchOrCreateUser_cached:
  "coll_get (cache_users (snd (patchOrCreateUser userID p s))) userID =
     Some (fst (patchOrCreateUser userID p s))"
  by (simp add: patchOrCreateUser_def Let_def coll_get_def coll_set_def update_conv'
      split: option.splits)

lemma patchOrCreateUser_fields:
  "cached_user_fields (snd (patchOrCreateUser userID p s)) userID f =
     (case map_of p f of None \<Rightarrow> cached_user_fields s userID f | Some v \<Rightarrow> Some v)"
  by (simp add: cached_user_fields_def patchOrCreateUser_def Let_def coll_get_def coll_set_def
      update_conv' User_patch_def User_new_def patch_fields_def merge_conv' map_add_def
      split: option.splits)

lemma patchOrCreateUser_next_ref:
  "next_ref (snd (patchOrCreateUser userID p s)) =
     (if coll_has (cache_users s) userID then next_ref s else Suc (next_ref s))"
  by (simp add: patchOrCreateUser_def Let_def coll_get_def coll_has_def split: option.splits)

lemma patchOrCreateUser_keys:
  "keyArray (cache_users (snd (patchOrCreateUser userID p s))) =
     (if coll_has (cache_users s) userID then keyArray (cache_users s)
      else keyArray (cache_users s) @ [userID])"
proof (cases "map_of (cache_users s) userID")
  case None
  then have "userID \<notin> fst ` set (cache_users s)"
    by (simp add: map_of_eq_None_iff)
  then show ?thesis
    by (simp add: patchOrCreateUser_def Let_def coll_get_def coll_has_def coll_set_def
        keyArray_def update_keys None)
next
  case (Some r)
  show ?thesis
    by (simp add: patchOrCreateUser_def Let_def coll_get_def coll_has_def Some)
qed

lemma upsert_calls_Cons:
  "upsert_calls userID (p # ps) s =
     (fst (patchOrCreateUser userID p s) # fst (upsert_calls userID ps (snd (patchOrCreateUser userID p s))),
      snd (upsert_calls userID ps (snd (patchOrCreateUser userID p s))))"
  by (simp split: prod.splits)

lemma upsert_calls_cached:
  assumes "coll_get (cache_users s) userID = Some r"
  shows "fst (upsert_calls userID ps s) = replicate (length ps) r
     \<and> coll_get (cache_users (snd (upsert_calls userID ps s))) userID = Some r
     \<and> next_ref (snd (upsert_calls userID ps s)) = next_ref s
     \<and> keyArray (cache_users (snd (upsert_calls userID ps s))) = keyArray (cache_users s)
     \<and> cached_user_fields (snd (upsert_calls userID ps s)) userID f
         = merged_field ps f (cached_user_fields s userID f)"
  using assms
proof (induction ps arbitrary: s)
  case Nil
  then show ?case by simp
next
  case (Cons p ps)
  let ?s1 = "snd (patchOrCreateUser userID p s)"
  have r: "fst (patchOrCreateUser userID p s) = r"
    using Cons.prems by (simp add: patchOrCreateUser_result)
  have c: "coll_get (cache_users ?s1) userID = Some r"
    using patchOrCreateUser_cached [of userID p s] r by simp
  have h: "coll_has (cache_users s) userID"
    using Cons.prems by (simp add: coll_has_def coll_get_def)
  from Cons.IH [OF c] r h show ?case
    by (simp only: upsert_calls_Cons fst_conv snd_conv merged_field_Cons
        patchOrCreateUser_fields patchOrCreateUser_next_ref patchOrCreateUser_keys
        length_Cons replicate_Suc if_True)
qed


lemma upsert_calls_any:
  "fst (upsert_calls userID ps s) =
      replicate (length ps) (case coll_get (cache_users s) userID of None \<Rightarrow> next_ref s | Some r \<Rightarrow> r)
   \<and> (ps \<noteq> [] \<longrightarrow> coll_get (cache_users (snd (upsert_calls userID ps s))) userID =
         Some (case coll_get (cache_users s) userID of None \<Rightarrow> next_ref s | Some r \<Rightarrow> r))
   \<and> next_ref (snd (upsert_calls userID ps s)) =
       (if coll_has (cache_users s) userID \<or> ps = [] then next_ref s else Suc (next_ref s))
   \<and> keyArray (cache_users (snd (upsert_calls userID ps s))) =
       (if coll_has (cache_users s) userID \<or> ps = [] then keyArray (cache_users s)
        else keyArray (cache_users s) @ [userID])
   \<and> cached_user_fields (snd (upsert_calls userID ps s)) userID f
       = merged_field ps f (cached_user_fields s userID f)"
proof (cases ps)
  case Nil
  then show ?thesis by simp
next
  case (Cons p ps')
  let ?r = "fst (patchOrCreateUser userID p s)"
  let ?s1 = "snd (patchOrCreateUser userID p s)"
  have c: "coll_get (cache_users ?s1) userID = Some ?r"
    by (rule patchOrCreateUser_cached)
  from upsert_calls_cached [OF c, of ps' f] show ?thesis
    by (simp only: Cons upsert_calls_Cons fst_conv snd_conv merged_field_Cons
        patchOrCreateUser_fields patchOrCreateUser_next_ref patchOrCreateUser_keys
        patchOrCreateUser_result length_Cons replicate_Suc) simp
qed

lemma upsert_message_result:
  "fst (upsert_message t cr p s) =
     (case coll_get (c_messages (chats_heap s cr)) (item_id p) of None \<Rightarrow> next_ref s | Some mr \<Rightarrow> mr)"
  by (simp add: upsert_message_def Let_def split: option.splits)

lemma upsert_message_cached:
  "coll_get (c_messages (chats_heap (snd (upsert_message t cr p s)) cr)) (item_id p) =
     Some (fst (upsert_message t cr p s))"
  by (simp add: upsert_message_def Let_def coll_get_def coll_set_def update_conv' Message_new_def
      split: option.splits)

lemma upsert_message_data:
  "cached_message_data (snd (upsert_message t cr p s)) cr (item_id p) =
     Some (case cached_message_data s cr (item_id p) of
             None \<Rightarrow> p | Some q \<Rightarrow> patch_message_payload q p)"
  by (simp add: cached_message_data_def upsert_message_def Let_def coll_get_def coll_set_def
      update_conv' Message_new_def Message_patch_def split: option.splits)

lemma upsert_message_next_ref:
  "next_ref (snd (upsert_message t cr p s)) =
     (if coll_has (c_messages (chats_heap s cr)) (item_id p) then next_ref s else Suc (next_ref s))"
  by (simp add: upsert_message_def Let_def coll_get_def coll_has_def split: option.splits)

lemma upsert_message_global:
  "coll_get (cache_messages (snd (upsert_message t cr p s))) (item_id p) =
     (if coll_has (c_messages (chats_heap s cr)) (item_id p)
      then coll_get (cache_messages s) (item_id p)
      else Some (fst (upsert_message t cr p s)))"
  by (simp add: upsert_message_def Let_def coll_get_def coll_has_def coll_set_def update_conv'
      Message_new_def split: option.splits)

lemma upsert_message_calls_Cons:
  "upsert_message_calls t cr (p # ps) s =
     (fst (upsert_message t cr p s) # fst (upsert_message_calls t cr ps (snd (upsert_message t cr p s))),
      snd (upsert_message_calls t cr ps (snd (upsert_message t cr p s))))"
  by (simp split: prod.splits)

lemma patch_all_Cons:
  "patch_all b (p # ps) =
     patch_all (Some (case b of None \<Rightarrow> p | Some q \<Rightarrow> patch_message_payload q p)) ps"
  by (simp add: patch_all_def)

lemma upsert_message_calls_cached:
  assumes "coll_get (c_messages (chats_heap s cr)) k = Some mr"
    and "\<forall>p \<in> set ps. item_id p = k"
  shows "fst (upsert_message_calls t cr ps s) = replicate (length ps) mr
     \<and> coll_get (c_messages (chats_heap (snd (upsert_message_calls t cr ps s)) cr)) k = Some mr
     \<and> next_ref (snd (upsert_message_calls t cr ps s)) = next_ref s
     \<and> coll_get (cache_messages (snd (upsert_message_calls t cr ps s))) k
         = coll_get (cache_messages s) k
     \<and> cached_message_data (snd (upsert_message_calls t cr ps s)) cr k
         = patch_all (cached_message_data s cr k) ps"
  using assms
proof (induction ps arbitrary: s)
  case Nil
  then show ?case by (simp add: patch_all_def)
next
  case (Cons p ps)
  let ?s1 = "snd (upsert_message t cr p s)"
  from Cons.prems(2) have k: "item_id p = k" and rest: "\<forall>p \<in> set ps. item_id p = k"
    by simp_all
  have r: "fst (upsert_message t cr p s) = mr"
    using Cons.prems(1) by (simp add: upsert_message_result k)
  have c: "coll_get (c_messages (chats_heap ?s1 cr)) k = Some mr"
    using upsert_message_cached [of t cr p s] r k by simp
  have h: "coll_has (c_messages (chats_heap s cr)) k"
    using Cons.prems(1) by (simp add: coll_has_def coll_get_def)
  have d: "cached_message_data ?s1 cr k =
      Some (case cached_message_data s cr k of None \<Rightarrow> p | Some q \<Rightarrow> patch_message_payload q p)"
    using upsert_message_data [of t cr p s] k by simp
  have n: "next_ref ?s1 = next_ref s"
    using upsert_message_next_ref [of t cr p s] h k by simp
  have g: "coll_get (cache_messages ?s1) k = coll_get (cache_messages s) k"
    using upsert_message_global [of t cr p s] h k by simp
  from Cons.IH [OF c rest] r d n g show ?case
    by (simp only: upsert_message_calls_Cons fst_conv snd_conv patch_all_Cons
        length_Cons replicate_Suc)
qed

lemma upsert_message_calls_any:
  assumes "\<forall>p \<in> set ps. item_id p = k"
  shows "fst (upsert_message_calls t cr ps s) =
      replicate (length ps)
        (case coll_get (c_messages (chats_heap s cr)) k of None \<Rightarrow> next_ref s | Some mr \<Rightarrow> mr)
   \<and> (ps \<noteq> [] \<longrightarrow>
        coll_get (c_messages (chats_heap (snd (upsert_message_calls t cr ps s)) cr)) k =
          Some (case coll_get (c_messages (chats_heap s cr)) k of None \<Rightarrow> next_ref s | Some mr \<Rightarrow> mr))
   \<and> (ps \<noteq> [] \<and> \<not> coll_has (c_messages (chats_heap s cr)) k \<longrightarrow>
        coll_get (cache_messages (snd (upsert_message_calls t cr ps s))) k = Some (next_ref s))
   \<and> next_ref (snd (upsert_message_calls t cr ps s)) =
       (if coll_has (c_messages (chats_heap s cr)) k \<or> ps = [] then next_ref s
        else Suc (next_ref s))
   \<and> cached_message_data (snd (upsert_message_calls t cr ps s)) cr k
       = patch_all (cached_message_data s cr k) ps"
proof (cases ps)
  case Nil
  then show ?thesis by (simp add: patch_all_def)
next
  case (Cons p ps')
  let ?r = "fst (upsert_message t cr p s)"
  let ?s1 = "snd (upsert_message t cr p s)"
  from assms Cons have k: "item_id p = k" and rest: "\<forall>p \<in> set ps'. item_id p = k"
    by simp_all
  have c: "coll_get (c_messages (chats_heap ?s1 cr)) k = Some ?r"
    using upsert_message_cached [of t cr p s] k by simp
  have r: "?r = (case coll_get (c_messages (chats_heap s cr)) k of None \<Rightarrow> next_ref s | Some mr \<Rightarrow> mr)"
    using upsert_message_result [of t cr p s] k by simp
  have d: "cached_message_data ?s1 cr k =
      Some (case cached_message_data s cr k of None \<Rightarrow> p | Some q \<Rightarrow> patch_message_payload q p)"
    using upsert_message_data [of t cr p s] k by simp
  have n: "next_ref ?s1 =
      (if coll_has (c_messages (chats_heap s cr)) k then next_ref s else Suc (next_ref s))"
    using upsert_message_next_ref [of t cr p s] k by simp
  have g: "\<not> coll_has (c_messages (chats_heap s cr)) k \<Longrightarrow>
      coll_get (cache_messages ?s1) k = Some (next_ref s)"
    using upsert_message_global [of t cr p s] k r by (simp add: coll_has_def coll_get_def)
  from upsert_message_calls_cached [OF c rest, of t] r d n g show ?thesis
    by (simp only: Cons upsert_message_calls_Cons fst_conv snd_conv patch_all_Cons
        length_Cons replicate_Suc) (auto simp: coll_has_def coll_get_def)
qed


text \<open>
  C8. Upsert calls with one identifier all return the same reference: the entity
  cached under the identifier before the calls, or else the one the first call
  creates; no further entity is allocated and the cache gets at most one new key.
  The fields of the user are the field-wise merge of the payloads in call order
  over the fields it had before: the last payload that carries a field decides it.
  The same holds for the message upsert of \<open>processMessage\<close> within one chat:
  one reference, held by the chat's collection and (when created) by the global
  cache, and the payloads patched in call order.
\<close>

theorem upsert_same_reference_merged_payload:
  "fst (upsert_calls userID ps s) =
      replicate (length ps) (case coll_get (cache_users s) userID of None \<Rightarrow> next_ref s | Some r \<Rightarrow> r)
   \<and> (ps \<noteq> [] \<longrightarrow> coll_get (cache_users (snd (upsert_calls userID ps s))) userID =
         Some (case coll_get (cache_users s) userID of None \<Rightarrow> next_ref s | Some r \<Rightarrow> r))
   \<and> next_ref (snd (upsert_calls userID ps s)) =
       (if coll_has (cache_users s) userID \<or> ps = [] then next_ref s else Suc (next_ref s))
   \<and> keyArray (cache_users (snd (upsert_calls userID ps s))) =
       (if coll_has (cache_users s) userID \<or> ps = [] then keyArray (cache_users s)
        else keyArray (cache_users s) @ [userID])
   \<and> (\<forall>f. cached_user_fields (snd (upsert_calls userID ps s)) userID f
         = merged_field ps f (cached_user_fields s userID f))
   \<and> ((\<forall>p \<in> set mps. item_id p = k) \<longrightarrow>
        fst (upsert_message_calls t cr mps s) =
          replicate (length mps)
            (case coll_get (c_messages (chats_heap s cr)) k of None \<Rightarrow> next_ref s | Some mr \<Rightarrow> mr)
      \<and> (mps \<noteq> [] \<longrightarrow>
           coll_get (c_messages (chats_heap (snd (upsert_message_calls t cr mps s)) cr)) k =
             Some (case coll_get (c_messages (chats_heap s cr)) k of
                     None \<Rightarrow> next_ref s | Some mr \<Rightarrow> mr))
      \<and> (mps \<noteq> [] \<and> \<not> coll_has (c_messages (chats_heap s cr)) k \<longrightarrow>
           coll_get (cache_messages (snd (upsert_message_calls t cr mps s))) k = Some (next_ref s))
      \<and> next_ref (snd (upsert_message_calls t cr mps s)) =
          (if coll_has (c_messages (chats_heap s cr)) k \<or> mps = [] then next_ref s
           else Suc (next_ref s))
      \<and> cached_message_data (snd (upsert_message_calls t cr mps s)) cr k
          = patch_all (cached_message_data s cr k) mps)"
proof -
  have u: "\<And>f. cached_user_fields (snd (upsert_calls userID ps s)) userID f
         = merged_field ps f (cached_user_fields s userID f)"
    using upsert_calls_any [of userID ps s] by blast
  from upsert_calls_any [of userID ps s undefined] u
    upsert_message_calls_any [of mps k t cr s]
  show ?thesis by blast
qed

theorem upsert_same_reference_merged_payload_witness:
  "fst (upsert_calls (Some ''7'') ex_user_payloads (Client default_options)) = [0, 0, 0]
   \<and> keyArray (cache_users (snd (upsert_calls (Some ''7'') ex_user_payloads
        (Client default_options)))) = [Some ''7'']
   \<and> cached_user_fields (snd (upsert_calls (Some ''7'') ex_user_payloads
        (Client default_options))) (Some ''7'') ''username'' = Some ''anna''
   \<and> cached_user_fields (snd (upsert_calls (Some ''7'') ex_user_payloads
        (Client default_options))) (Some ''7'') ''full_name'' = Some ''Ann A''
   \<and> cached_user_fields (snd (upsert_calls (Some ''7'') ex_user_payloads
        (Client default_options))) (Some ''7'') ''pk'' = Some ''7''
   \<and> fst (upsert_message_calls (Some ''t'') 0 ex_message_payloads
        (snd (minimal_chat (Some ''t'') (Client default_options)))) = [1, 1]
   \<and> cached_message_data (snd (upsert_message_calls (Some ''t'') 0 ex_message_payloads
        (snd (minimal_chat (Some ''t'') (Client default_options))))) 0 (Some ''1'')
      = Some \<lparr>item_id = Some ''1'', user_id = Some ''7'', thread_id = Some ''t'',
               timestamp = Some 5, item_text = Some ''hello''\<rparr>"
proof -
  have h: "\<forall>p \<in> set ex_message_payloads. item_id p = Some ''1''"
    by (simp add: ex_message_payloads_def)
  have c: "coll_get (cache_users (Client default_options)) (Some ''7'') = None"
    "coll_has (cache_users (Client default_options)) (Some ''7'') = False"
    "next_ref (Client default_options) = 0"
    "keyArray (cache_users (Client default_options)) = []"
    "\<And>f. cached_user_fields (Client default_options) (Some ''7'') f = None"
    by (simp_all add: Client_def coll_get_def coll_has_def keyArray_def cached_user_fields_def)
  have m: "coll_get (c_messages (chats_heap (snd (minimal_chat (Some ''t'') (Client default_options))) 0))
       (Some ''1'') = None"
    "next_ref (snd (minimal_chat (Some ''t'') (Client default_options))) = 1"
    "cached_message_data (snd (minimal_chat (Some ''t'') (Client default_options))) 0 (Some ''1'') = None"
    by (simp_all add: Client_def minimal_chat_def Chat_new_def coll_get_def Let_def
        cached_message_data_def)
  from upsert_same_reference_merged_payload [of "Some ''7''" ex_user_payloads
      "Client default_options" ex_message_payloads "Some ''1''" "Some ''t''" 0]
  have "fst (upsert_calls (Some ''7'') ex_user_payloads (Client default_options)) =
      replicate (length ex_user_payloads) 0"
    and "keyArray (cache_users (snd (upsert_calls (Some ''7'') ex_user_payloads
        (Client default_options)))) = [Some ''7'']"
    and "\<And>f. cached_user_fields (snd (upsert_calls (Some ''7'') ex_user_payloads
        (Client default_options))) (Some ''7'') f = merged_field ex_user_payloads f None"
    by (simp_all add: c ex_user_payloads_def)
  moreover
  from upsert_same_reference_merged_payload [of "Some ''7''" "[]"
      "snd (minimal_chat (Some ''t'') (Client default_options))"
      ex_message_payloads "Some ''1''" "Some ''t''" 0] h
  have "fst (upsert_message_calls (Some ''t'') 0 ex_message_payloads
        (snd (minimal_chat (Some ''t'') (Client default_options)))) =
        replicate (length ex_message_payloads) 1"
    and "cached_message_data (snd (upsert_message_calls (Some ''t'') 0 ex_message_payloads
        (snd (minimal_chat (Some ''t'') (Client default_options))))) 0 (Some ''1'')
      = patch_all None ex_message_payloads"
    by (simp_all add: m)
  ultimately show ?thesis
    by (simp add: ex_user_payloads_def ex_message_payloads_def merged_field_def patch_all_def
        patch_message_payload_def over_def)
qed

section \<open>Properties of the two restore paths\<close>

lemma session_login_try_spec:
  assumes "ig s = Some fresh_ig"
  shows "returns (session_login_try e s) = session_file_valid e (sessionFilePath (options s))
    \<and> io (state_of (session_login_try e s)) =
        io s @ Access (sessionFilePath (options s)) #
          (if fs_access e (sessionFilePath (options s)) = None
           then [ReadFile (sessionFilePath (options s))] else [])
    \<and> options (state_of (session_login_try e s)) = options s
    \<and> (\<not> session_file_valid e (sessionFilePath (options s)) \<longrightarrow>
          ig (state_of (session_login_try e s)) =
            Some (ig_after_session e (sessionFilePath (options s))))"
  using assms
  by (auto simp: session_login_try_def session_file_valid_def ig_after_session_def
      returns_def state_of_def logMsg_def Let_def
      split: option.splits sum.splits file_content.splits)

lemma install_cookies_spec:
  assumes "ig s = Some g"
  shows "(case jar_after e cs g of
            None \<Rightarrow> \<not> returns (install_cookies e cs s)
          | Some g' \<Rightarrow> returns (install_cookies e cs s)
              \<and> ig (state_of (install_cookies e cs s)) = Some g')
      \<and> io (state_of (install_cookies e cs s)) = io s
      \<and> options (state_of (install_cookies e cs s)) = options s"
  using assms
proof (induction cs arbitrary: s g)
  case Nil
  then show ?case by (simp add: returns_def state_of_def)
next
  case (Cons c cs)
  let ?tc = "toughCookie c"
  show ?case
  proof (cases "truthy (tc_domain ?tc)")
    case False
    let ?s1 = "logMsg ''WARN'' ''Skipping cookie due to missing domain'' s"
    have eq: "install_cookies e (c # cs) s = install_cookies e cs ?s1"
      using False by simp
    have "ig ?s1 = Some g" and l: "io ?s1 = io s" "options ?s1 = options s"
      using Cons.prems by (simp_all add: logMsg_def)
    from Cons.IH [OF this(1)] False show ?thesis
      unfolding eq l by simp
  next
    case True
    show ?thesis
    proof (cases "setCookie e ?tc (cookie_url ?tc)")
      case (Some err)
      with True Cons.prems show ?thesis
        by (simp add: returns_def state_of_def)
    next
      case None
      let ?g' = "g\<lparr>cookieJar := cookieJar g @ [(?tc, cookie_url ?tc)]\<rparr>"
      have eq: "install_cookies e (c # cs) s = install_cookies e cs (s\<lparr>ig := Some ?g'\<rparr>)"
        using True None Cons.prems by simp
      have ja: "jar_after e (c # cs) g = jar_after e cs ?g'"
        using True None by simp
      have "ig (s\<lparr>ig := Some ?g'\<rparr>) = Some ?g'" by simp
      from Cons.IH [OF this] show ?thesis
        unfolding eq ja by simp
    qed
  qed
qed

lemma loadCookiesFromJson_spec:
  assumes "ig s = Some g"
  shows "io (state_of (loadCookiesFromJson e path s)) = io s @ [ReadFile path]
    \<and> options (state_of (loadCookiesFromJson e path s)) = options s
    \<and> (case fs_readFile e path of
          Inr (Json_array cs) \<Rightarrow>
            (case jar_after e cs g of
               None \<Rightarrow> \<not> returns (loadCookiesFromJson e path s)
             | Some g' \<Rightarrow> returns (loadCookiesFromJson e path s)
                 \<and> ig (state_of (loadCookiesFromJson e path s)) = Some g')
        | _ \<Rightarrow> \<not> returns (loadCookiesFromJson e path s))"
proof (cases "fs_readFile e path")
  case (Inl err)
  then show ?thesis
    by (simp add: loadCookiesFromJson_def Let_def state_of_def returns_def logMsg_def)
next
  case (Inr c)
  show ?thesis
  proof (cases c)
    case (Json_array cs)
    let ?s0 = "s\<lparr>io := io s @ [ReadFile path]\<rparr>"
    have "ig ?s0 = Some g" using assms by simp
    note ic = install_cookies_spec [OF this, of e cs]
    show ?thesis
    proof (cases "install_cookies e cs ?s0")
      case (Return u s')
      with ic show ?thesis
        by (simp add: loadCookiesFromJson_def Let_def state_of_def returns_def logMsg_def
            Inr Json_array split: option.splits)
    next
      case (Throws err s')
      with ic show ?thesis
        by (simp add: loadCookiesFromJson_def Let_def state_of_def returns_def logMsg_def
            Inr Json_array split: option.splits)
    qed
  qed (simp_all add: loadCookiesFromJson_def Let_def state_of_def returns_def logMsg_def Inr)
qed

lemma cookie_login_spec:
  assumes "ig s = Some g"
  shows "fst (cookie_login e s) = cookie_file_valid e (cookiesFilePath (options s)) g
    \<and> io (snd (cookie_login e s)) =
        io s @ ReadFile (cookiesFilePath (options s)) #
          (if cookie_file_valid e (cookiesFilePath (options s)) g
              \<and> fs_writeFile e (sessionFilePath (options s)) = None
           then (case cookie_session e (cookiesFilePath (options s)) g of
                   None \<Rightarrow> []
                 | Some ser \<Rightarrow> [WriteFile (sessionFilePath (options s)) ser])
           else [])"
proof -
  let ?s1 = "logMsg ''INFO'' ''Attempting login using cookies file...'' s"
  let ?cp = "cookiesFilePath (options s)"
  have g1: "ig ?s1 = Some g" using assms by (simp add: logMsg_def)
  have o1: "options ?s1 = options s" "io ?s1 = io s" by (simp_all add: logMsg_def)
  note l = loadCookiesFromJson_spec [OF g1, of e ?cp, unfolded o1]
  show ?thesis
  proof (cases "loadCookiesFromJson e ?cp ?s1")
    case (Throws err s2)
    with l have "\<not> cookie_file_valid e ?cp g" and "io s2 = io s @ [ReadFile ?cp]"
      by (auto simp: cookie_file_valid_def returns_def state_of_def
          split: sum.splits file_content.splits option.splits)
    then show ?thesis using Throws
      by (simp add: cookie_login_def Let_def o1 logMsg_def)
  next
    case (Return u s2)
    with l obtain cs g' where rd: "fs_readFile e ?cp = Inr (Json_array cs)"
      and ja: "jar_after e cs g = Some g'"
      and g2: "ig s2 = Some g'" and io2: "io s2 = io s @ [ReadFile ?cp]"
      and o2: "options s2 = options s"
      by (auto simp: returns_def state_of_def split: sum.splits file_content.splits option.splits)
    show ?thesis
      using Return
      by (simp add: cookie_login_def Let_def o1 o2 g2 io2 rd ja logMsg_def cookie_file_valid_def
          cookie_session_def split: sum.splits option.splits)
  qed
qed

lemma attemptLogin_spec:
  "fst (attemptLogin e s) =
     (session_file_valid e (sessionFilePath (options s))
      \<or> cookie_file_valid e (cookiesFilePath (options s))
           (ig_after_session e (sessionFilePath (options s))))
   \<and> io (snd (attemptLogin e s)) =
       io s @ Access (sessionFilePath (options s)) #
         (if fs_access e (sessionFilePath (options s)) = None
          then [ReadFile (sessionFilePath (options s))] else []) @
         (if session_file_valid e (sessionFilePath (options s)) then []
          else ReadFile (cookiesFilePath (options s)) #
            (if cookie_file_valid e (cookiesFilePath (options s))
                  (ig_after_session e (sessionFilePath (options s)))
                \<and> fs_writeFile e (sessionFilePath (options s)) = None
             then (case cookie_session e (cookiesFilePath (options s))
                          (ig_after_session e (sessionFilePath (options s))) of
                     None \<Rightarrow> []
                   | Some ser \<Rightarrow> [WriteFile (sessionFilePath (options s)) ser])
             else []))"
proof -
  let ?s0 = "s\<lparr>ig := Some \<lparr>ig_session = None, cookieJar = []\<rparr>\<rparr>"
  let ?sp = "sessionFilePath (options s)"
  have g0: "ig ?s0 = Some fresh_ig" by (simp add: fresh_ig_def)
  have o0: "options ?s0 = options s" "io ?s0 = io s" by simp_all
  note st = session_login_try_spec [OF g0, of e, unfolded o0]
  show ?thesis
  proof (cases "session_login_try e ?s0")
    case (Return u s1)
    with st show ?thesis
      by (simp add: attemptLogin_def Let_def returns_def state_of_def)
  next
    case (Throws err s1)
    with st have nv: "\<not> session_file_valid e ?sp"
      and io1: "io s1 = io s @ Access ?sp # (if fs_access e ?sp = None then [ReadFile ?sp] else [])"
      and o1: "options s1 = options s"
      and g1: "ig s1 = Some (ig_after_session e ?sp)"
      by (simp_all add: returns_def state_of_def)
    let ?s2 = "logMsg ''INFO'' ''session file not found or invalid, trying cookies...'' s1"
    have g2: "ig ?s2 = Some (ig_after_session e ?sp)" using g1 by (simp add: logMsg_def)
    have o2: "options ?s2 = options s" "io ?s2 = io s1" using o1 by (simp_all add: logMsg_def)
    from cookie_login_spec [OF g2, of e, unfolded o2] nv io1 Throws
    show ?thesis
      by (simp add: attemptLogin_def Let_def)
  qed
qed

lemma login_begin_rejects:
  "\<not> fst (attemptLogin e s) \<Longrightarrow>
   login_begin e s =
     Throws (Error ''No valid login method succeeded (session or cookies).'') (snd (attemptLogin e s))"
  by (cases "attemptLogin e s") (simp add: login_begin_def)


section \<open>Frames and invariants of the state machine\<close>

lemma frame_refl [simp]: "frame s s"
  by (simp add: frame_def)

lemma frame_trans: "frame s s1 \<Longrightarrow> frame s1 s2 \<Longrightarrow> frame s s2"
  by (auto simp: frame_def)

lemma frame_logMsg [simp]: "frame s (logMsg l m s)"
  by (simp add: frame_def logMsg_def)

lemma frame_logMsg_iff [simp]: "frame s (logMsg l m s') = frame s s'"
  by (simp add: frame_def logMsg_def)

lemma keys_coll_set: "set (keyArray (coll_set c k v)) = insert k (set (keyArray c))"
  by (simp add: keyArray_def coll_set_def dom_update)

lemma keys_coll_delete: "set (keyArray (coll_delete c k)) = set (keyArray c) - {k}"
  by (auto simp: keyArray_def coll_delete_def delete_keys)

lemma frame_emit: "frame s (state_of (emit e ev s))"
  by (simp add: frame_def emit_def state_of_def Let_def split: option.splits)

lemma frame_fetchChat: "frame s (state_of (fetchChat e c f s))"
  by (auto simp: frame_def fetchChat_def with_ig_def state_of_def Let_def keys_coll_set split: sum.splits)

lemma frame_createChat: "frame s (state_of (createChat e us s))"
  by (auto simp: frame_def createChat_def with_ig_def state_of_def Let_def keys_coll_set split: sum.splits)

lemma frame_minimal_chat: "frame s (snd (minimal_chat t s))"
  by (auto simp: frame_def minimal_chat_def Let_def keys_coll_set)

lemma frame_patchOrCreateUser: "frame s (snd (patchOrCreateUser u p s))"
  by (simp add: frame_def patchOrCreateUser_def Let_def split: option.splits)

lemma frame_fetchUser: "frame s (state_of (fetchUser e q f s))"
  using frame_patchOrCreateUser
  by (simp add: fetchUser_def with_ig_def state_of_def Let_def split: sum.splits)

lemma frame_upsert_message: "frame s (snd (upsert_message t cr p s))"
  by (simp add: frame_def upsert_message_def Let_def split: option.splits)

lemma frame_resolve_chat: "frame s (snd (resolve_chat e t s))"
proof (cases "coll_get (cache_chats s) t")
  case (Some r)
  then show ?thesis by (simp add: resolve_chat_def)
next
  case None
  show ?thesis
  proof (cases "fetchChat e t False s")
    case (Return x s1)
    with frame_fetchChat [of s e t False] have "frame s s1" by (simp add: state_of_def)
    then show ?thesis using None Return frame_minimal_chat [of s1 t]
      by (cases x) (auto simp: resolve_chat_def intro: frame_trans)
  next
    case (Throws err s1)
    with frame_fetchChat [of s e t False] have "frame s s1" by (simp add: state_of_def)
    moreover have "frame s1 (snd (minimal_chat t (logMsg ''WARN'' ''Error fetching/creating chat for message'' s1)))"
      using frame_minimal_chat [of "logMsg ''WARN'' ''Error fetching/creating chat for message'' s1" t]
      by (auto simp: frame_def logMsg_def)
    ultimately show ?thesis using None Throws
      by (auto simp: resolve_chat_def intro: frame_trans)
  qed
qed

lemma frame_processMessage_try: "frame s (state_of (processMessage_try e mp d s))"
proof (cases mp)
  case None
  then show ?thesis by (simp add: processMessage_try_def state_of_def)
next
  case (Some p)
  let ?t = "js_or (case ev_thread d of None \<Rightarrow> None | Some t \<Rightarrow> t_thread_id t) (thread_id p)"
  obtain cr s1 where rc: "resolve_chat e ?t s = (cr, s1)" by (cases "resolve_chat e ?t s")
  obtain mr s2 where um: "upsert_message ?t cr p s1 = (mr, s2)" by (cases "upsert_message ?t cr p s1")
  from frame_resolve_chat [of s e ?t] rc have 1: "frame s s1" by simp
  from frame_upsert_message [of s1 ?t cr p] um have 2: "frame s1 s2" by simp
  from 1 2 have 3: "frame s s2" by (rule frame_trans)
  from 3 frame_emit [of s2 e "MessageCreate mr"]
  have 4: "frame s (state_of (emit e (MessageCreate mr) s2))" by (rule frame_trans)
  show ?thesis
    using Some 3 4
    by (simp add: processMessage_try_def Let_def rc um state_of_def)
qed

lemma frame_processMessage: "frame s (state_of (processMessage e mp d s))"
  using frame_processMessage_try [of s e mp d]
  by (cases "processMessage_try e mp d s") (simp_all add: processMessage_def state_of_def)

lemma frame_and_then:
  assumes "frame s (state_of r)" and "\<And>s1. frame s1 (state_of (f s1))"
  shows "frame s (state_of (and_then r f))"
proof (cases r)
  case (Return u s1)
  with assms(1) have "frame s s1" by (simp add: state_of_def)
  with assms(2) [of s1] show ?thesis using Return
    by (auto simp: and_then_def intro: frame_trans)
next
  case (Throws err s1)
  with assms(1) show ?thesis by (simp add: and_then_def state_of_def)
qed

text \<open>The split of \<open>fetchUser\<close> at its first await composes to the whole function.\<close>

lemma fetchUser_split: "fetchUser e q f s = fetchUser_resume e (fetchUser_call q f s) f s"
  by (simp add: fetchUser_def fetchUser_call_def fetchUser_resume_def with_ig_def Let_def
      split: option.splits sum.splits)

lemma frame_fetchUser_resume: "frame s (state_of (fetchUser_resume e ft f s))"
  using frame_patchOrCreateUser
  by (cases ft)
     (simp_all add: fetchUser_resume_def with_ig_def state_of_def Let_def split: sum.splits)

lemma frame_detached: "frame s (state_of r) \<Longrightarrow> frame s (detached r)"
  by (cases r) (simp_all add: detached_def state_of_def frame_def)

lemma frame_handleFbnsReceive_call: "frame s (snd (handleFbnsReceive_call e data s))"
proof -
  let ?s1 = "logMsg ''INFO'' ''Pending message request notification received (FBNS)'' s"
  have "frame ?s1 (state_of (emit e (PendingRequestNotification data) ?s1))"
    by (rule frame_emit)
  then have "frame ?s1 (detached (emit e (PendingRequestNotification data) ?s1))"
    by (rule frame_detached)
  with frame_logMsg [of s] have "frame s (detached (emit e (PendingRequestNotification data) ?s1))"
    by (rule frame_trans)
  then show ?thesis by (simp add: handleFbnsReceive_call_def)
qed

lemma frame_handleFbnsReceive_resume: "frame s (handleFbnsReceive_resume e tk s)"
proof -
  have "frame s (state_of (case fetchUser_resume e (snd tk) False s of
          Throws err s' \<Rightarrow> Throws err s'
        | Return u s' \<Rightarrow> emit e (follow_event (fst tk) u) s'))"
  proof (cases "fetchUser_resume e (snd tk) False s")
    case (Return u s')
    with frame_fetchUser_resume [of s e "snd tk" False] have "frame s s'"
      by (simp add: state_of_def)
    with frame_emit [of s' e "follow_event (fst tk) u"] show ?thesis
      using Return by (auto intro: frame_trans)
  next
    case (Throws err s')
    with frame_fetchUser_resume [of s e "snd tk" False] show ?thesis
      by (simp add: state_of_def)
  qed
  then show ?thesis
    unfolding handleFbnsReceive_resume_def by (rule frame_detached)
qed

lemma frame_fold_resume: "frame s (fold (handleFbnsReceive_resume e) tks s)"
proof (induction tks arbitrary: s)
  case Nil
  then show ?case by simp
next
  case (Cons tk tks)
  from frame_handleFbnsReceive_resume [of s e tk] Cons.IH [of "handleFbnsReceive_resume e tk s"]
  show ?case by (auto intro: frame_trans)
qed

lemma frame_settle: "frame s (settle e tks s)"
  unfolding settle_def by (rule frame_fold_resume)

lemma frame_handleFbnsReceive: "frame s (handleFbnsReceive e data s)"
proof (cases "handleFbnsReceive_call e data s")
  case (Pair tks s')
  with frame_handleFbnsReceive_call [of s e data] have "frame s s'" by simp
  with frame_settle [of s' e tks] show ?thesis
    using Pair by (auto simp: handleFbnsReceive_def intro: frame_trans)
qed

lemma frame_on_error: "frame s (state_of (on_error e err s))"
  using frame_emit [of "logMsg ''ERROR'' ''Realtime connection error'' s" e "ErrorEvent err"]
  by (simp add: on_error_def frame_def logMsg_def)

lemma frame_on_forwarded: "frame s (state_of (on_forwarded e name s))"
  using frame_emit [of "logMsg ''INFO'' name s" e "Forwarded name"]
  by (simp add: on_forwarded_def frame_def logMsg_def)

lemma frame_replay_event: "frame s (snd (replay_event e ev (tks, s)))"
proof (cases ev)
  case (BufRealtime tp payload)
  then show ?thesis by (simp add: replay_event_def parseInboxUpdates_def)
next
  case (BufFbns data)
  then show ?thesis
    using frame_handleFbnsReceive_call [of s e data]
    by (auto simp: replay_event_def split: prod.splits)
qed

lemma frame_fold_replay: "frame s (snd (fold (replay_event e) evs (tks, s)))"
proof (induction evs arbitrary: s tks)
  case Nil
  then show ?case by simp
next
  case (Cons ev evs)
  obtain tks1 s1 where r: "replay_event e ev (tks, s) = (tks1, s1)"
    by (cases "replay_event e ev (tks, s)")
  with frame_replay_event [of s e ev tks] have "frame s s1" by simp
  with Cons.IH [of s1 tks1] show ?case
    by (auto simp: r intro: frame_trans)
qed

text \<open>The receive handler and the push subscriber.\<close>

lemma on_receive_not_ready:
  "\<not> ready s \<Longrightarrow>
   on_receive e tp payload s =
     Return () (s\<lparr>eventsToReplay := eventsToReplay s @ [BufRealtime tp payload]\<rparr>)"
  by (simp add: on_receive_def)

lemma on_fbns_push_not_ready:
  "\<not> ready s \<Longrightarrow>
   on_fbns_push e data s = Return () (s\<lparr>eventsToReplay := eventsToReplay s @ [BufFbns data]\<rparr>)"
  by (simp add: on_fbns_push_def)

lemma emitted_and_then:
  assumes "\<exists>rest. emitted (state_of r) = emitted s @ x # rest"
    and "\<And>s1. \<exists>rest. emitted (state_of (f s1)) = emitted s1 @ rest"
  shows "\<exists>rest. emitted (state_of (and_then r f)) = emitted s @ x # rest"
proof (cases r)
  case (Return u s1)
  with assms(1) obtain r1 where "emitted s1 = emitted s @ x # r1" by (auto simp: state_of_def)
  moreover from assms(2) [of s1] obtain r2 where "emitted (state_of (f s1)) = emitted s1 @ r2"
    by blast
  ultimately show ?thesis using Return by (simp add: and_then_def)
next
  case (Throws err s1)
  with assms(1) show ?thesis by (simp add: and_then_def state_of_def)
qed

lemma emitted_emit: "emitted (state_of (emit e ev s)) = emitted s @ [ev]"
  by (simp add: emit_def state_of_def Let_def split: option.splits)

lemma on_receive_ready:
  assumes "ready s"
  shows "frame s (state_of (on_receive e tp payload s))
     \<and> emitted (state_of (on_receive e tp payload s)) = emitted s @ [RawRealtime tp payload]"
proof -
  have f: "frame s (state_of (on_receive e tp payload s))"
    using assms frame_emit [of s e "RawRealtime tp payload"]
    by (simp add: on_receive_def)
       (rule frame_and_then, simp_all add: state_of_def parseInboxUpdates_def)
  have "emitted (state_of (on_receive e tp payload s)) = emitted s @ [RawRealtime tp payload]"
    using assms emitted_emit [of e "RawRealtime tp payload" s]
    by (cases "emit e (RawRealtime tp payload) s")
       (simp_all add: on_receive_def and_then_def state_of_def parseInboxUpdates_def logMsg_def)
  with f show ?thesis by simp
qed

lemma emitted_mono_fetchUser: "emitted (state_of (fetchUser e q f s)) = emitted s"
  by (simp add: fetchUser_def with_ig_def state_of_def patchOrCreateUser_def Let_def
      split: sum.splits option.splits)

lemma on_fbns_push_ready:
  assumes "ready s"
  shows "frame s (state_of (on_fbns_push e data s))
     \<and> (\<exists>rest. emitted (state_of (on_fbns_push e data s)) = emitted s @ RawFbns data # rest)"
proof (cases "emit e (RawFbns data) s")
  case (Return u s1)
  with frame_emit [of s e "RawFbns data"] emitted_emit [of e "RawFbns data" s]
  have 1: "frame s s1" and 2: "emitted s1 = emitted s @ [RawFbns data]"
    by (simp_all add: state_of_def)
  have 3: "frame s1 (handleFbnsReceive e data s1)"
    by (rule frame_handleFbnsReceive)
  have 4: "\<exists>rest. emitted (handleFbnsReceive e data s1) = emitted s1 @ rest"
    using 3 by (auto simp: frame_def prefix_def)
  from 1 3 have "frame s (handleFbnsReceive e data s1)" by (rule frame_trans)
  with 2 4 show ?thesis using assms Return
    by (auto simp: on_fbns_push_def and_then_def state_of_def)
next
  case (Throws err s1)
  with frame_emit [of s e "RawFbns data"] emitted_emit [of e "RawFbns data" s]
  show ?thesis using assms
    by (simp add: on_fbns_push_def and_then_def state_of_def)
qed



text \<open>Updates of fields the frame does not mention.\<close>

lemma frame_irrelevant [simp]:
  "frame s (s'\<lparr>logs := l\<rparr>) = frame s s'"
  "frame s (s'\<lparr>io := i\<rparr>) = frame s s'"
  "frame s (s'\<lparr>ig := g\<rparr>) = frame s s'"
  "frame s (s'\<lparr>next_ref := n\<rparr>) = frame s s'"
  "frame s (s'\<lparr>users_heap := uh\<rparr>) = frame s s'"
  "frame s (s'\<lparr>chats_heap := ch\<rparr>) = frame s s'"
  "frame s (s'\<lparr>messages_heap := mh\<rparr>) = frame s s'"
  "frame s (s'\<lparr>cache_users := cu\<rparr>) = frame s s'"
  "frame s (s'\<lparr>cache_messages := cm\<rparr>) = frame s s'"
  "frame s (s'\<lparr>client_user := u\<rparr>) = frame s s'"
  "frame s (s'\<lparr>unhandledRejections := ur\<rparr>) = frame s s'"
  "frame s (s'\<lparr>handlers_registered := h\<rparr>) = frame s s'"
  "frame s (s'\<lparr>awaiting_connect := a\<rparr>) = frame s s'"
  by (simp_all add: frame_def)

lemma state_of_emit: "state_of (emit e ev s) = s\<lparr>emitted := emitted s @ [ev]\<rparr>"
  by (simp add: emit_def state_of_def Let_def split: option.splits)

text \<open>Operations that change the flag, the buffer, the dedup set or the pending chats.\<close>

lemma pending_in_chats_irrelevant [simp]:
  "pending_in_chats (s\<lparr>logs := l\<rparr>) = pending_in_chats s"
  "pending_in_chats (s\<lparr>emitted := em\<rparr>) = pending_in_chats s"
  "pending_in_chats (s\<lparr>ready := b\<rparr>) = pending_in_chats s"
  "pending_in_chats (s\<lparr>eventsToReplay := evs\<rparr>) = pending_in_chats s"
  "pending_in_chats (s\<lparr>chats_heap := ch\<rparr>) = pending_in_chats s"
  "pending_in_chats (s\<lparr>next_ref := n\<rparr>) = pending_in_chats s"
  "pending_in_chats (s\<lparr>handlers_registered := h\<rparr>) = pending_in_chats s"
  "pending_in_chats (s\<lparr>awaiting_connect := a\<rparr>) = pending_in_chats s"
  "pending_in_chats (logMsg lv m s) = pending_in_chats s"
  by (simp_all add: pending_in_chats_def logMsg_def)

lemma pending_in_chats_set_chats:
  "pending_in_chats s \<Longrightarrow> pending_in_chats (s\<lparr>cache_chats := coll_set (cache_chats s) k v\<rparr>)"
  by (auto simp: pending_in_chats_def keys_coll_set)

lemma pending_in_chats_delete:
  "pending_in_chats s \<Longrightarrow>
   pending_in_chats (s\<lparr>cache_pendingChats := coll_delete (cache_pendingChats s) k\<rparr>)"
  by (auto simp: pending_in_chats_def keys_coll_delete)

lemma pending_in_chats_set_both:
  "pending_in_chats s \<Longrightarrow>
   pending_in_chats (s\<lparr>cache_chats := coll_set (cache_chats s) k v,
                       cache_pendingChats := coll_set (cache_pendingChats s) k v'\<rparr>)"
  by (auto simp: pending_in_chats_def keys_coll_set)

lemma kept_refl [simp]: "kept s s"
  by (simp add: kept_def)

lemma kept_trans: "kept s s1 \<Longrightarrow> kept s1 s2 \<Longrightarrow> kept s s2"
  by (simp add: kept_def)

lemma kept_irrelevant [simp]:
  "kept s (s'\<lparr>logs := l\<rparr>) = kept s s'"
  "kept s (s'\<lparr>emitted := em\<rparr>) = kept s s'"
  "kept s (s'\<lparr>ready := b\<rparr>) = kept s s'"
  "kept s (s'\<lparr>handlers_registered := h\<rparr>) = kept s s'"
  "kept s (s'\<lparr>awaiting_connect := a\<rparr>) = kept s s'"
  "kept s (logMsg lv m s') = kept s s'"
  by (simp_all add: kept_def logMsg_def)

lemma frame_kept: "frame s s' \<Longrightarrow> kept s s'"
  by (auto simp: frame_def kept_def pending_in_chats_def)

lemma frame_ready: "frame s s' \<Longrightarrow> ready s' = ready s"
  by (simp add: frame_def)

lemma ready_logMsg [simp]: "ready (logMsg l m s) = ready s"
  by (simp add: logMsg_def)

lemma on_close_spec:
  "kept s (state_of (on_close e s)) \<and> \<not> ready (state_of (on_close e s))"
  by (simp add: on_close_def state_of_emit)

lemma teardown_kept [simp]:
  "kept s (teardown r g b s') = kept s s'" "ready (teardown r g b s) = ready s"
  "ig (teardown r g b s) = ig s"
  by (simp_all add: teardown_def logMsg_def split: option.splits)

lemma logout_spec:
  "kept s (state_of (logout e s)) \<and> \<not> ready (state_of (logout e s))"
proof -
  let ?s1 = "(logMsg ''INFO'' ''Initiating graceful logout from Instagram...'' s)\<lparr>ready := False\<rparr>"
  let ?s2 = "case with_ig_call ?s1 (sendForegroundState e) of
                  None \<Rightarrow> logMsg ''INFO'' ''Foreground state set'' ?s1
                | Some err \<Rightarrow> logMsg ''ERROR'' ''Failed to set foreground state'' ?s1"
  have 2: "kept s ?s2 \<and> \<not> ready ?s2"
    by (simp split: option.splits)
  show ?thesis
    unfolding logout_def Let_def state_of_emit
    using 2 by simp
qed

lemma keptI:
  assumes "eventsToReplay s' = eventsToReplay s"
    and "processedMessageIds s' = processedMessageIds s" and "options s' = options s"
    and "set (keyArray (cache_pendingChats s')) \<subseteq> set (keyArray (cache_pendingChats s))"
    and "set (keyArray (cache_chats s)) \<subseteq> set (keyArray (cache_chats s'))"
  shows "kept s s'"
  using assms by (auto simp: kept_def pending_in_chats_def)

lemma approve_spec:
  "kept s (snd (approveMessageRequest e t s))
   \<and> ready (snd (approveMessageRequest e t s)) = ready s"
  by (auto simp: approveMessageRequest_def with_ig_call_def emit_def Let_def logMsg_def keys_coll_set
      keys_coll_delete split: option.splits intro!: keptI)

lemma decline_spec:
  "kept s (snd (declineMessageRequest e t s))
   \<and> ready (snd (declineMessageRequest e t s)) = ready s"
  by (auto simp: declineMessageRequest_def with_ig_call_def emit_def Let_def logMsg_def keys_coll_set
      keys_coll_delete split: option.splits intro!: keptI)


lemma handleMessageWrapper_flags:
  "ready (state_of (handleMessageWrapper e d s)) = ready s
   \<and> eventsToReplay (state_of (handleMessageWrapper e d s)) = eventsToReplay s
   \<and> cache_pendingChats (state_of (handleMessageWrapper e d s)) = cache_pendingChats s
   \<and> set (keyArray (cache_chats s))
        \<subseteq> set (keyArray (cache_chats (state_of (handleMessageWrapper e d s))))"
proof (cases "ev_message d")
  case None
  then show ?thesis
    by (simp add: handleMessageWrapper_def handleMessageWrapper_try_def state_of_def logMsg_def)
next
  case (Some p)
  obtain b s1 where n: "isNewMessageById (item_id p) s = (b, s1)"
    by (cases "isNewMessageById (item_id p) s")
  then have s1: "ready s1 = ready s \<and> eventsToReplay s1 = eventsToReplay s
      \<and> cache_pendingChats s1 = cache_pendingChats s \<and> cache_chats s1 = cache_chats s"
    by (auto simp: isNewMessageById_def logMsg_def Let_def split: option.splits if_splits list.splits)
  let ?s0 = "logMsg ''INFO'' ''Processing new message (by ID)...'' s1"
  from processMessage_returns [of e "Some p" d ?s0]
  obtain s' where pm: "processMessage e (Some p) d ?s0 = Return () s'"
    by (metis returns_Return)
  from frame_processMessage [of ?s0 e "Some p" d] pm
  have "frame ?s0 s'" by (simp add: state_of_def)
  then have "ready s' = ready s \<and> eventsToReplay s' = eventsToReplay s
      \<and> cache_pendingChats s' = cache_pendingChats s
      \<and> set (keyArray (cache_chats s)) \<subseteq> set (keyArray (cache_chats s'))"
    using s1 by (simp add: frame_def logMsg_def)
  then show ?thesis using Some n pm s1
    by (cases b) (simp_all add: handleMessageWrapper_def handleMessageWrapper_try_def state_of_def
        logMsg_def)
qed

text \<open>Login.\<close>

lemma frame_logMsg_left [simp]: "frame (logMsg l m s) s' = frame s s'"
  by (simp add: frame_def logMsg_def)

lemma frame_left_irrelevant [simp]:
  "frame (s\<lparr>io := i\<rparr>) s' = frame s s'"
  "frame (s\<lparr>ig := g\<rparr>) s' = frame s s'"
  by (simp_all add: frame_def)

lemma install_cookies_frame: "frame s (state_of (install_cookies e cs s))"
proof (induction cs arbitrary: s)
  case Nil
  then show ?case by (simp add: state_of_def)
next
  case (Cons c cs)
  have a: "frame s (state_of (install_cookies e cs (logMsg ''WARN'' ''Skipping cookie due to missing domain'' s)))"
    using Cons.IH [of "logMsg ''WARN'' ''Skipping cookie due to missing domain'' s"]
    by simp
  have b: "frame s (state_of (install_cookies e cs (s\<lparr>ig := g\<rparr>)))" for g
    using Cons.IH [of "s\<lparr>ig := g\<rparr>"] by simp
  show ?case using a b
    by (simp add: Let_def state_of_def split: option.splits)
qed

lemma state_of_cases:
  "P (state_of r) \<Longrightarrow> (\<And>u s. r = Return u s \<Longrightarrow> P s \<Longrightarrow> Q) \<Longrightarrow>
   (\<And>err s. r = Throws err s \<Longrightarrow> P s \<Longrightarrow> Q) \<Longrightarrow> Q"
  by (cases r) (simp_all add: state_of_def)

lemma loadCookies_frame: "frame s (state_of (loadCookiesFromJson e path s))"
proof (cases "fs_readFile e path")
  case (Inl err)
  then show ?thesis by (simp add: loadCookiesFromJson_def Let_def state_of_def)
next
  case (Inr c)
  show ?thesis
  proof (cases c)
    case (Json_array cs)
    have "frame s (state_of (install_cookies e cs (s\<lparr>io := io s @ [ReadFile path]\<rparr>)))"
      using install_cookies_frame [of "s\<lparr>io := io s @ [ReadFile path]\<rparr>" e cs] by simp
    then show ?thesis
      by (rule state_of_cases)
         (simp_all add: loadCookiesFromJson_def Let_def state_of_def Inr Json_array)
  qed (simp_all add: loadCookiesFromJson_def Let_def state_of_def Inr)
qed

lemma session_login_try_frame: "frame s (state_of (session_login_try e s))"
  by (simp add: session_login_try_def Let_def state_of_def logMsg_def
      split: option.splits sum.splits file_content.splits)


lemma cookie_login_frame: "frame s (snd (cookie_login e s))"
proof -
  let ?s1 = "logMsg ''INFO'' ''Attempting login using cookies file...'' s"
  have "frame s (state_of (loadCookiesFromJson e (cookiesFilePath (options ?s1)) ?s1))"
    using loadCookies_frame [of ?s1 e "cookiesFilePath (options ?s1)"] by simp
  then show ?thesis
    by (rule state_of_cases)
       (simp_all add: cookie_login_def Let_def split: option.splits sum.splits)
qed

lemma attemptLogin_frame: "frame s (snd (attemptLogin e s))"
proof -
  let ?s0 = "s\<lparr>ig := Some \<lparr>ig_session = None, cookieJar = []\<rparr>\<rparr>"
  have "frame s (state_of (session_login_try e ?s0))"
    using session_login_try_frame [of ?s0 e] by simp
  then show ?thesis
  proof (rule state_of_cases)
    fix u s1
    assume "session_login_try e ?s0 = Return u s1" and "frame s s1"
    then show ?thesis by (simp add: attemptLogin_def Let_def)
  next
    fix err s1
    assume t: "session_login_try e ?s0 = Throws err s1" and f: "frame s s1"
    have "frame s1 (snd (cookie_login e
        (logMsg ''INFO'' ''session file not found or invalid, trying cookies...'' s1)))"
      using cookie_login_frame [of "logMsg ''INFO'' ''session file not found or invalid, trying cookies...'' s1" e]
      by simp
    with f have "frame s (snd (cookie_login e
        (logMsg ''INFO'' ''session file not found or invalid, trying cookies...'' s1)))"
      by (rule frame_trans)
    then show ?thesis using t by (simp add: attemptLogin_def Let_def)
  qed
qed

lemma fetch_client_user_frame: "frame s (state_of (fetch_client_user e s))"
proof (cases "with_ig s (usernameinfo e (or_default (IG_USERNAME e) ''default''))")
  case (Inl err)
  then show ?thesis by (simp add: fetch_client_user_def state_of_def)
next
  case (Inr response)
  show ?thesis
  proof (cases "with_ig s (user_info e (map_of response ''pk''))")
    case (Inl err)
    then show ?thesis by (simp add: fetch_client_user_def state_of_def Inr)
  next
    case userData: (Inr userData)
    show ?thesis
      by (simp add: fetch_client_user_def Inr userData Let_def state_of_emit)
         (simp add: frame_def)
  qed
qed

lemma cache_thread_kept:
  "kept s (cache_thread t s) \<and> ready (cache_thread t s) = ready s"
  by (auto simp: cache_thread_def kept_def Let_def pending_in_chats_def keys_coll_set)

lemma fold_cache_thread_kept:
  "kept s (fold cache_thread ts s) \<and> ready (fold cache_thread ts s) = ready s"
proof (induction ts arbitrary: s)
  case Nil
  then show ?case by simp
next
  case (Cons t ts)
  from cache_thread_kept [of s t] Cons.IH [of "cache_thread t s"]
  show ?case by (auto intro: kept_trans)
qed

lemma prepopulate_kept:
  "kept s (prepopulate e s) \<and> ready (prepopulate e s) = ready s"
proof -
  have "kept s (fold cache_thread (xs @ ys) s) \<and> ready (fold cache_thread (xs @ ys) s) = ready s"
    for xs ys
    by (rule fold_cache_thread_kept)
  then show ?thesis
    by (simp add: prepopulate_def split: sum.splits)
qed

lemma login_begin_kept:
  "kept s (state_of (login_begin e s)) \<and> ready (state_of (login_begin e s)) = ready s"
proof -
  obtain b s1 where a: "attemptLogin e s = (b, s1)" by (cases "attemptLogin e s")
  with attemptLogin_frame [of s e] have 1: "kept s s1" "ready s1 = ready s"
    by (simp_all add: frame_kept frame_ready)
  show ?thesis
  proof (cases b)
    case False
    with a 1 show ?thesis by (simp add: login_begin_def state_of_def)
  next
    case True
    have "frame s1 (state_of (fetch_client_user e s1))"
      by (rule fetch_client_user_frame)
    then show ?thesis
    proof (rule state_of_cases)
      fix err s2
      assume t: "fetch_client_user e s1 = Throws err s2" and "frame s1 s2"
      then have "kept s1 s2" "ready s2 = ready s1"
        by (simp_all add: frame_kept frame_ready)
      with 1 have "kept s s2" "ready s2 = ready s"
        by (auto intro: kept_trans)
      then show ?thesis using a True t by (simp add: login_begin_def state_of_def)
    next
      fix u s2
      assume r: "fetch_client_user e s1 = Return u s2" and "frame s1 s2"
      then have 2: "kept s1 s2" "ready s2 = ready s1"
        by (simp_all add: frame_kept frame_ready)
      from prepopulate_kept [of s2 e]
      have 3: "kept s2 (registerRealtimeHandlers (prepopulate e s2))"
        "ready (registerRealtimeHandlers (prepopulate e s2)) = ready s2"
        by (simp_all add: registerRealtimeHandlers_def)
      from 1 2 3 have "kept s (registerRealtimeHandlers (prepopulate e s2))"
        "ready (registerRealtimeHandlers (prepopulate e s2)) = ready s"
        by (auto intro: kept_trans)
      then show ?thesis using a True r
        by (simp add: login_begin_def state_of_def Let_def split: option.splits)
    qed
  qed
qed

lemma login_connected_spec:
  "processedMessageIds (state_of (login_connected e s)) = processedMessageIds s
   \<and> options (state_of (login_connected e s)) = options s
   \<and> (pending_in_chats s \<longrightarrow> pending_in_chats (state_of (login_connected e s)))
   \<and> ready (state_of (login_connected e s))
   \<and> (eventsToReplay (state_of (login_connected e s)) = []
      \<or> eventsToReplay (state_of (login_connected e s)) = eventsToReplay s)"
proof (cases "emit e Connected (s\<lparr>ready := True\<rparr>)")
  case (Throws err s1)
  with state_of_emit [of e Connected "s\<lparr>ready := True\<rparr>"]
  have "s1 = s\<lparr>ready := True, emitted := emitted s @ [Connected]\<rparr>"
    by (simp add: state_of_def)
  then show ?thesis using Throws
    by (simp add: login_connected_def state_of_def pending_in_chats_def)
next
  case (Return u s1)
  with state_of_emit [of e Connected "s\<lparr>ready := True\<rparr>"]
  have s1: "s1 = s\<lparr>ready := True, emitted := emitted s @ [Connected]\<rparr>"
    by (simp add: state_of_def)
  let ?s2 = "logMsg ''INFO'' ''Combined Instagram client is now running and listening for messages'' s1"
  obtain tks s3 where r: "fold (replay_event e) (eventsToReplay ?s2) ([], ?s2) = (tks, s3)"
    by (cases "fold (replay_event e) (eventsToReplay ?s2) ([], ?s2)")
  with frame_fold_replay [of ?s2 e "eventsToReplay ?s2" "[]"] have f: "frame ?s2 s3"
    by simp
  let ?s4 = "s3\<lparr>eventsToReplay := []\<rparr>"
  have g: "frame ?s4 (settle e tks ?s4)"
    by (rule frame_settle)
  have p: "pending_in_chats ?s2 = pending_in_chats s"
    by (simp add: s1)
  have st: "state_of (login_connected e s) = settle e tks ?s4"
    using Return r by (simp add: login_connected_def state_of_def Let_def)
  from f g p show ?thesis
    unfolding st
    by (auto simp: frame_def pending_in_chats_def s1 logMsg_def)
qed


text \<open>One step of the state machine.\<close>

lemma window_ok_kept: "kept s s' \<Longrightarrow> window_ok s \<Longrightarrow> window_ok s'"
  by (simp add: kept_def window_ok_def)

lemma kept_pending: "kept s s' \<Longrightarrow> pending_in_chats s \<Longrightarrow> pending_in_chats s'"
  by (simp add: kept_def)

lemma kept_buffer: "kept s s' \<Longrightarrow> eventsToReplay s' = eventsToReplay s"
  by (simp add: kept_def)

lemma step_ok_kept: "kept s s' \<Longrightarrow> ready s' \<longrightarrow> ready s \<Longrightarrow> step_ok e i s s'"
  by (auto simp: step_ok_def kept_def window_ok_def)

lemma step_ok_message:
  "step_ok e i s (state_of (handleMessageWrapper e d s))"
  using handleMessageWrapper_flags [of e d s] window_ok_handleMessageWrapper [of s e d]
  by (auto simp: step_ok_def pending_in_chats_def)

lemma step_ok_receive: "step_ok e i s (state_of (on_receive e tp payload s))"
proof (cases "ready s")
  case True
  from on_receive_ready [OF True, of e tp payload]
  have "frame s (state_of (on_receive e tp payload s))" by simp
  then show ?thesis by (simp add: step_ok_kept frame_kept frame_ready)
next
  case False
  then show ?thesis
    by (simp add: on_receive_not_ready state_of_def step_ok_def window_ok_def
        pending_in_chats_def)
qed

lemma step_ok_fbns: "step_ok e i s (state_of (on_fbns_push e data s))"
proof (cases "ready s")
  case True
  from on_fbns_push_ready [OF True, of e data]
  have "frame s (state_of (on_fbns_push e data s))" by simp
  then show ?thesis by (simp add: step_ok_kept frame_kept frame_ready)
next
  case False
  then show ?thesis
    by (simp add: on_fbns_push_not_ready state_of_def step_ok_def window_ok_def
        pending_in_chats_def)
qed

lemma step_ok_login: "step_ok e i s (step e Login s)"
proof -
  have "kept s (state_of (login_begin e s))" "ready (state_of (login_begin e s)) = ready s"
    using login_begin_kept [of s e] by simp_all
  then have "kept s (step e Login s)" "ready (step e Login s) = ready s"
    by (cases "login_begin e s"; simp add: step_def state_of_def)+
  then show ?thesis by (simp add: step_ok_kept)
qed

lemma step_ok_connect: "step_ok e Connect_resolved s (step e Connect_resolved s)"
  using login_connected_spec [of e "s\<lparr>awaiting_connect := False\<rparr>"]
  by (auto simp: step_def step_ok_def window_ok_def pending_in_chats_def)

lemma step_ok_step: "step_ok e i s (step e i s)"
proof (cases i)
  case Login
  then show ?thesis by (simp add: step_ok_login)
next
  case Connect_resolved
  then show ?thesis by (simp add: step_ok_connect)
next
  case Connect_rejected
  then show ?thesis by (simp add: step_def step_ok_kept)
next
  case (Message_event d)
  then show ?thesis using step_ok_message [of e i s d]
    by (simp add: step_def step_ok_kept)
next
  case (Direct_event d)
  then show ?thesis using step_ok_message [of e i s d]
    by (simp add: step_def step_ok_kept)
next
  case (Receive_event tp payload)
  then show ?thesis using step_ok_receive [of e i s tp payload]
    by (simp add: step_def step_ok_kept)
next
  case (Fbns_push data)
  then show ?thesis using step_ok_fbns [of e i s data]
    by (simp add: step_def step_ok_kept)
next
  case Close_event
  then show ?thesis using on_close_spec [of s e]
    by (simp add: step_def step_ok_kept)
next
  case (Error_event err)
  then show ?thesis using frame_on_error [of s e err]
    by (simp add: step_def step_ok_kept frame_kept frame_ready)
next
  case (Forwarded_event name)
  then show ?thesis using frame_on_forwarded [of s e name]
    by (simp add: step_def step_ok_kept frame_kept frame_ready)
next
  case (Approve t)
  then show ?thesis using approve_spec [of s e t]
    by (simp add: step_def step_ok_kept)
next
  case (Decline t)
  then show ?thesis using decline_spec [of s e t]
    by (simp add: step_def step_ok_kept)
next
  case (FetchChat c f)
  then show ?thesis using frame_fetchChat [of s e c f]
    by (simp add: step_def step_ok_kept frame_kept frame_ready)
next
  case (FetchUser q f)
  then show ?thesis using frame_fetchUser [of s e q f]
    by (simp add: step_def step_ok_kept frame_kept frame_ready)
next
  case (CreateChat us)
  then show ?thesis using frame_createChat [of s e us]
    by (simp add: step_def step_ok_kept frame_kept frame_ready)
next
  case Logout
  then show ?thesis using logout_spec [of s e]
    by (simp add: step_def step_ok_kept)
qed

lemma run_invariants:
  "window_ok s \<Longrightarrow> pending_in_chats s \<Longrightarrow>
   window_ok (run inputs s) \<and> pending_in_chats (run inputs s)"
proof (induction inputs arbitrary: s)
  case Nil
  then show ?case by simp
next
  case (Cons a inputs)
  obtain e i where a: "a = (e, i)" by (cases a)
  from step_ok_step [of e i s] Cons.prems
  have "window_ok (step e i s)" "pending_in_chats (step e i s)"
    by (simp_all add: step_ok_def)
  from Cons.IH [OF this] show ?case by (simp add: a)
qed

lemma pending_in_chats_Client: "pending_in_chats (Client opts)"
  by (simp add: pending_in_chats_def Client_def keyArray_def)

section \<open>The login fallback\<close>

text \<open>No file is touched after \<open>attemptLogin\<close>.\<close>

lemma io_logMsg [simp]: "io (logMsg l m s) = io s"
  by (simp add: logMsg_def)

lemma io_emit [simp]: "io (state_of (emit e ev s)) = io s"
  by (simp add: state_of_emit)

lemma io_detached [simp]: "io (detached r) = io (state_of r)"
  by (cases r) (simp_all add: detached_def state_of_def)

lemma io_patchOrCreateUser [simp]: "io (snd (patchOrCreateUser u p s)) = io s"
  by (simp add: patchOrCreateUser_def Let_def split: option.splits)

lemma io_fetchUser_resume [simp]: "io (state_of (fetchUser_resume e ft f s)) = io s"
  by (cases ft)
     (simp_all add: fetchUser_resume_def with_ig_def state_of_def Let_def split: sum.splits option.splits)

lemma io_handleFbnsReceive_resume [simp]: "io (handleFbnsReceive_resume e tk s) = io s"
proof (cases "fetchUser_resume e (snd tk) False s")
  case (Return u s')
  with io_fetchUser_resume [of e "snd tk" False s] show ?thesis
    by (simp add: handleFbnsReceive_resume_def state_of_def [of "Return u s'"])
next
  case (Throws err s')
  with io_fetchUser_resume [of e "snd tk" False s] show ?thesis
    by (simp add: handleFbnsReceive_resume_def state_of_def)
qed

lemma io_fold_resume [simp]: "io (fold (handleFbnsReceive_resume e) tks s) = io s"
  by (induction tks arbitrary: s) simp_all

lemma io_settle [simp]: "io (settle e tks s) = io s"
  by (simp add: settle_def)

lemma io_handleFbnsReceive_call [simp]: "io (snd (handleFbnsReceive_call e data s)) = io s"
  by (simp add: handleFbnsReceive_call_def)

lemma io_replay_event: "io (snd (replay_event e ev (tks, s))) = io s"
proof (cases ev)
  case (BufRealtime tp payload)
  then show ?thesis by (simp add: replay_event_def parseInboxUpdates_def)
next
  case (BufFbns data)
  then show ?thesis
    using io_handleFbnsReceive_call [of e data s]
    by (cases "handleFbnsReceive_call e data s") (simp add: replay_event_def)
qed

lemma io_fold_replay: "io (snd (fold (replay_event e) evs (tks, s))) = io s"
proof (induction evs arbitrary: s tks)
  case Nil
  then show ?case by simp
next
  case (Cons ev evs)
  obtain tks1 s1 where r: "replay_event e ev (tks, s) = (tks1, s1)"
    by (cases "replay_event e ev (tks, s)")
  with io_replay_event [of e ev tks s] have "io s1 = io s" by simp
  with Cons.IH [of tks1 s1] show ?case by (simp add: r)
qed

lemma io_login_connected: "io (state_of (login_connected e s)) = io s"
proof (cases "emit e Connected (s\<lparr>ready := True\<rparr>)")
  case (Throws err s1)
  with io_emit [of e Connected "s\<lparr>ready := True\<rparr>"] show ?thesis
    by (simp add: login_connected_def state_of_def)
next
  case (Return u s1)
  with io_emit [of e Connected "s\<lparr>ready := True\<rparr>"] have 1: "io s1 = io s"
    by (simp add: state_of_def)
  let ?s2 = "logMsg ''INFO'' ''Combined Instagram client is now running and listening for messages'' s1"
  obtain tks s3 where r: "fold (replay_event e) (eventsToReplay ?s2) ([], ?s2) = (tks, s3)"
    by (cases "fold (replay_event e) (eventsToReplay ?s2) ([], ?s2)")
  with io_fold_replay [of e "eventsToReplay ?s2" "[]" ?s2] 1 have "io s3 = io s" by simp
  then show ?thesis
    using Return r by (simp add: login_connected_def state_of_def Let_def)
qed

lemma io_cache_thread [simp]: "io (cache_thread t s) = io s"
  by (simp add: cache_thread_def Let_def)

lemma io_fold_cache_thread [simp]: "io (fold cache_thread ts s) = io s"
  by (induction ts arbitrary: s) simp_all

lemma io_prepopulate [simp]: "io (prepopulate e s) = io s"
  by (simp add: prepopulate_def split: sum.splits)

lemma io_fetch_client_user [simp]: "io (state_of (fetch_client_user e s)) = io s"
  by (simp add: fetch_client_user_def Let_def state_of_emit split: sum.splits)
     (simp add: state_of_def)

lemma io_login_begin: "io (state_of (login_begin e s)) = io (snd (attemptLogin e s))"
proof -
  obtain b s1 where a: "attemptLogin e s = (b, s1)" by (cases "attemptLogin e s")
  show ?thesis
  proof (cases b)
    case False
    with a show ?thesis by (simp add: login_begin_def state_of_def)
  next
    case True
    show ?thesis
    proof (cases "fetch_client_user e s1")
      case (Return u s2)
      with io_fetch_client_user [of e s1] have "io s2 = io s1" by (simp add: state_of_def)
      then show ?thesis using a True Return
        by (simp add: login_begin_def state_of_def Let_def registerRealtimeHandlers_def
            split: option.splits)
    next
      case (Throws err s2)
      with io_fetch_client_user [of e s1] have "io s2 = io s1" by (simp add: state_of_def)
      then show ?thesis using a True Throws
        by (simp add: login_begin_def state_of_def)
    qed
  qed
qed

lemma io_login_resolved: "io (state_of (login_resolved e s)) = io (snd (attemptLogin e s))"
proof (cases "login_begin e s")
  case (Return u s1)
  with io_login_begin [of e s] have "io s1 = io (snd (attemptLogin e s))"
    by (simp add: state_of_def)
  with io_login_connected [of e s1] show ?thesis
    using Return by (simp add: login_resolved_def and_then_def)
next
  case (Throws err s1)
  with io_login_begin [of e s] show ?thesis
    by (simp add: login_resolved_def and_then_def)
qed

text \<open>\<open>attemptLogin\<close> leaves a transport client, whatever its result.\<close>

lemma ig_install_cookies: "ig s \<noteq> None \<Longrightarrow> ig (state_of (install_cookies e cs s)) \<noteq> None"
proof (induction cs arbitrary: s)
  case Nil
  then show ?case by (simp add: state_of_def)
next
  case (Cons c cs)
  from Cons.prems obtain g where g: "ig s = Some g" by auto
  have a: "ig (state_of (install_cookies e cs (logMsg ''WARN'' ''Skipping cookie due to missing domain'' s))) \<noteq> None"
    using Cons.IH [of "logMsg ''WARN'' ''Skipping cookie due to missing domain'' s"] Cons.prems
    by (simp add: logMsg_def)
  have b: "ig (state_of (install_cookies e cs (s\<lparr>ig := Some g'\<rparr>))) \<noteq> None" for g'
    using Cons.IH [of "s\<lparr>ig := Some g'\<rparr>"] by simp
  show ?case using a b g
    by (simp add: state_of_def [of "Throws _ _"] split: option.splits)
qed

lemma ig_loadCookies: "ig s \<noteq> None \<Longrightarrow> ig (state_of (loadCookiesFromJson e path s)) \<noteq> None"
proof -
  assume h: "ig s \<noteq> None"
  let ?s0 = "s\<lparr>io := io s @ [ReadFile path]\<rparr>"
  have ic: "ig (state_of (install_cookies e cs ?s0)) \<noteq> None" for cs
    using ig_install_cookies [of ?s0 e cs] h by simp
  show ?thesis
  proof (cases "fs_readFile e path")
    case (Inl err)
    with h show ?thesis by (simp add: loadCookiesFromJson_def Let_def state_of_def logMsg_def)
  next
    case (Inr c)
    show ?thesis
    proof (cases c)
      case (Json_array cs)
      from ic [of cs] show ?thesis
        by (cases "install_cookies e cs ?s0")
           (simp_all add: loadCookiesFromJson_def Let_def state_of_def logMsg_def Inr Json_array)
    next
      case (Json_object x)
      with h show ?thesis
        by (simp add: loadCookiesFromJson_def Let_def state_of_def logMsg_def Inr)
    next
      case Malformed
      with h show ?thesis
        by (simp add: loadCookiesFromJson_def Let_def state_of_def logMsg_def Inr)
    qed
  qed
qed

lemma ig_cookie_login: "ig s \<noteq> None \<Longrightarrow> ig (snd (cookie_login e s)) \<noteq> None"
proof -
  assume h: "ig s \<noteq> None"
  let ?s1 = "logMsg ''INFO'' ''Attempting login using cookies file...'' s"
  have "ig (state_of (loadCookiesFromJson e (cookiesFilePath (options ?s1)) ?s1)) \<noteq> None"
    using ig_loadCookies [of ?s1 e] h by (simp add: logMsg_def)
  then show ?thesis
    by (cases "loadCookiesFromJson e (cookiesFilePath (options ?s1)) ?s1")
       (auto simp: cookie_login_def Let_def state_of_def logMsg_def
        split: sum.splits option.splits)
qed

lemma ig_session_login_try: "ig s \<noteq> None \<Longrightarrow> ig (state_of (session_login_try e s)) \<noteq> None"
  by (auto simp: session_login_try_def Let_def state_of_def logMsg_def
      split: option.splits sum.splits file_content.splits)

lemma ig_attemptLogin: "ig (snd (attemptLogin e s)) \<noteq> None"
proof -
  let ?s0 = "s\<lparr>ig := Some \<lparr>ig_session = None, cookieJar = []\<rparr>\<rparr>"
  have 1: "ig (state_of (session_login_try e ?s0)) \<noteq> None"
    by (rule ig_session_login_try) simp
  show ?thesis
  proof (cases "session_login_try e ?s0")
    case (Return u s1)
    with 1 show ?thesis by (simp add: attemptLogin_def Let_def state_of_def)
  next
    case (Throws err s1)
    with 1 have "ig (logMsg ''INFO'' ''session file not found or invalid, trying cookies...'' s1) \<noteq> None"
      by (simp add: state_of_def logMsg_def)
    from ig_cookie_login [OF this] show ?thesis using Throws
      by (simp add: attemptLogin_def Let_def)
  qed
qed

lemma login_resolved_returns:
  assumes "fst (attemptLogin e s)" and "login_rest_ok e"
  shows "returns (login_resolved e s) \<and> ready (state_of (login_resolved e s))"
proof -
  obtain s1 where a: "attemptLogin e s = (True, s1)"
    using assms(1) by (cases "attemptLogin e s") simp
  with ig_attemptLogin [of e s] obtain g where g: "ig s1 = Some g" by auto
  from assms(2) obtain response userData where
    u: "usernameinfo e (or_default (IG_USERNAME e) ''default'') = Inr response"
    and i: "user_info e (map_of response ''pk'') = Inr userData"
    and d: "directInbox_request e = None"
    and l1: "listener e (Debug ''logged'') = None" and l2: "listener e Connected = None"
    by (auto simp: login_rest_ok_def split: sum.splits)
  have "returns (fetch_client_user e s1)"
    by (simp add: fetch_client_user_def with_ig_def g u i Let_def emit_def l1 returns_def)
  then obtain s2 where f: "fetch_client_user e s1 = Return () s2"
    by (cases "fetch_client_user e s1") (simp_all add: returns_def)
  have b: "login_begin e s = Return () (registerRealtimeHandlers (prepopulate e s2))"
    by (simp add: login_begin_def a f d Let_def)
  let ?s3 = "registerRealtimeHandlers (prepopulate e s2)"
  have "returns (login_connected e ?s3)"
    by (simp add: login_connected_def emit_def l2 returns_def Let_def split: prod.splits)
  moreover have "ready (state_of (login_connected e ?s3))"
    using login_connected_spec [of e ?s3] by simp
  ultimately show ?thesis
    by (simp add: login_resolved_def and_then_def b)
qed



lemmas login_eval = attemptLogin_def session_login_try_def cookie_login_def
  loadCookiesFromJson_def login_begin_def Client_def default_options_def logMsg_def
  offline_def cookies_only_def session_only_def online_def session_online_def
  ex_cookie_def truthy_def or_default_def
  toughCookie_def cookie_url_def login_rest_ok_def
  session_file_valid_def cookie_file_valid_def cookie_session_def ig_after_session_def
  fresh_ig_def Let_def


section \<open>Pending chats and the ready flag\<close>

text \<open>
  C7 (amended). At every reachable state every chat id of \<open>pendingChats\<close> is also a
  key of \<open>chats\<close>. On a client that has a transport client (\<open>this.ig\<close> is set by
  \<open>login\<close>), an approved request leaves \<open>pendingChats\<close>, its chat
  object is stored under the id in \<open>chats\<close> with the pending flag cleared, and
  \<open>messageRequestApproved\<close> is emitted; a declined request leaves \<open>pendingChats\<close>,
  \<open>chats\<close> and the chat objects stay as they are, and \<open>messageRequestDeclined\<close>
  is emitted.
\<close>

theorem pending_chats_also_in_chats:
  "pending_in_chats (run inputs (Client opts))
   \<and> (truthy t \<and> ig s \<noteq> None \<and> thread_approve e t = None
        \<and> coll_get (cache_pendingChats s) t = Some r \<longrightarrow>
        \<not> coll_has (cache_pendingChats (snd (approveMessageRequest e t s))) t
        \<and> coll_get (cache_chats (snd (approveMessageRequest e t s))) t = Some r
        \<and> \<not> pending (chats_heap (snd (approveMessageRequest e t s)) r)
        \<and> emitted (snd (approveMessageRequest e t s)) = emitted s @ [MessageRequestApproved r])
   \<and> (truthy t \<and> ig s \<noteq> None \<and> thread_decline e t = None
        \<and> coll_get (cache_pendingChats s) t = Some r \<longrightarrow>
        \<not> coll_has (cache_pendingChats (snd (declineMessageRequest e t s))) t
        \<and> cache_chats (snd (declineMessageRequest e t s)) = cache_chats s
        \<and> chats_heap (snd (declineMessageRequest e t s)) = chats_heap s
        \<and> emitted (snd (declineMessageRequest e t s)) = emitted s @ [MessageRequestDeclined r])"
proof -
  have 1: "pending_in_chats (run inputs (Client opts))"
    using run_invariants [OF window_ok_Client pending_in_chats_Client] by simp
  have 2: "\<not> coll_has (cache_pendingChats (snd (approveMessageRequest e t s))) t
        \<and> coll_get (cache_chats (snd (approveMessageRequest e t s))) t = Some r
        \<and> \<not> pending (chats_heap (snd (approveMessageRequest e t s)) r)
        \<and> emitted (snd (approveMessageRequest e t s)) = emitted s @ [MessageRequestApproved r]"
    if "truthy t \<and> ig s \<noteq> None \<and> thread_approve e t = None
        \<and> coll_get (cache_pendingChats s) t = Some r"
    using that
    by (simp add: approveMessageRequest_def with_ig_call_def emit_def Let_def logMsg_def coll_has_def coll_get_def
        coll_set_def coll_delete_def update_conv' delete_conv' split: option.splits)
  have 3: "\<not> coll_has (cache_pendingChats (snd (declineMessageRequest e t s))) t
        \<and> cache_chats (snd (declineMessageRequest e t s)) = cache_chats s
        \<and> chats_heap (snd (declineMessageRequest e t s)) = chats_heap s
        \<and> emitted (snd (declineMessageRequest e t s)) = emitted s @ [MessageRequestDeclined r]"
    if "truthy t \<and> ig s \<noteq> None \<and> thread_decline e t = None
        \<and> coll_get (cache_pendingChats s) t = Some r"
    using that
    by (simp add: declineMessageRequest_def with_ig_call_def emit_def Let_def logMsg_def coll_has_def coll_get_def
        coll_set_def coll_delete_def update_conv' delete_conv' split: option.splits)
  from 1 2 3 show ?thesis by blast
qed

lemma after_login_fields:
  "(ready after_login, awaiting_connect after_login, handlers_registered after_login,
    eventsToReplay after_login, cache_chats after_login, cache_pendingChats after_login,
    ig after_login \<noteq> None)
   = (False, True, True, [], [(Some ''a1'', 1), (Some ''p1'', 2)], [(Some ''p1'', 2)], True)"
  by code_simp

lemma after_connect_fields:
  "(handlers_registered (step online Connect_resolved after_login),
    eventsToReplay (step online Connect_resolved after_login)) = (True, [])"
  by code_simp

theorem pending_chats_also_in_chats_witness:
  "pending_in_chats after_login
   \<and> ig after_login \<noteq> None
   \<and> coll_get (cache_pendingChats after_login) (Some ''p1'') = Some 2
   \<and> \<not> coll_has (cache_pendingChats (snd (approveMessageRequest online (Some ''p1'') after_login)))
         (Some ''p1'')
   \<and> coll_get (cache_chats (snd (approveMessageRequest online (Some ''p1'') after_login)))
         (Some ''p1'') = Some 2
   \<and> \<not> pending (chats_heap (snd (approveMessageRequest online (Some ''p1'') after_login)) 2)
   \<and> \<not> coll_has (cache_pendingChats (snd (declineMessageRequest online (Some ''p1'') after_login)))
         (Some ''p1'')
   \<and> cache_chats (snd (declineMessageRequest online (Some ''p1'') after_login))
       = cache_chats after_login"
proof -
  have h: "truthy (Some ''p1'')" "thread_approve online (Some ''p1'') = None"
    "thread_decline online (Some ''p1'') = None"
    by (simp_all add: truthy_def online_def cookies_only_def offline_def)
  have c: "coll_get (cache_pendingChats after_login) (Some ''p1'') = Some 2"
    "ig after_login \<noteq> None"
    using after_login_fields by (simp_all add: coll_get_def)
  from pending_chats_also_in_chats [where inputs = "[(online, Login)]" and opts = default_options
      and t = "Some ''p1''" and e = online and s = after_login and r = 2] h c
  show ?thesis by (simp add: after_login_def)
qed

text \<open>
  C7 as stated fails: after login the pending thread \<open>p1\<close> is a key of both
  \<open>chats\<close> and \<open>pendingChats\<close>.
\<close>

theorem pending_chat_cached_twice:
  "coll_has (cache_chats after_login) (Some ''p1'')
   \<and> coll_has (cache_pendingChats after_login) (Some ''p1'')"
  using after_login_fields by (simp add: coll_has_def)

text \<open>
  C4 (amended). The ready flag is false at construction. A step makes it true only
  when it completes a pending login after the connects have resolved, and every
  such completion sets it; the \<open>close\<close> handler and \<open>logout\<close> reset it to false.
  While the flag is true no step appends to the replay buffer; whenever it is
  false and the handlers are registered, a \<open>receive\<close> or push event is appended,
  also after the client has been ready before.
\<close>

theorem ready_flag_lifecycle:
  "\<not> ready (Client opts) \<and> eventsToReplay (Client opts) = []
   \<and> (ready (step e i s) \<and> \<not> ready s \<longrightarrow> i = Connect_resolved \<and> awaiting_connect s)
   \<and> (awaiting_connect s \<longrightarrow> ready (step e Connect_resolved s))
   \<and> (handlers_registered s \<longrightarrow> \<not> ready (step e Close_event s))
   \<and> \<not> ready (step e Logout s)
   \<and> (ready s \<longrightarrow>
        eventsToReplay (step e i s) = eventsToReplay s \<or> eventsToReplay (step e i s) = [])
   \<and> (\<not> ready s \<and> handlers_registered s \<longrightarrow>
        eventsToReplay (step e (Receive_event tp payload) s)
          = eventsToReplay s @ [BufRealtime tp payload]
        \<and> eventsToReplay (step e (Fbns_push data) s) = eventsToReplay s @ [BufFbns data])"
proof -
  have 1: "\<not> ready (Client opts) \<and> eventsToReplay (Client opts) = []"
    by (simp add: Client_def)
  from step_ok_step [of e i s]
  have 2: "ready (step e i s) \<and> \<not> ready s \<longrightarrow> i = Connect_resolved \<and> awaiting_connect s"
    and 6: "ready s \<longrightarrow>
        eventsToReplay (step e i s) = eventsToReplay s \<or> eventsToReplay (step e i s) = []"
    by (auto simp: step_ok_def)
  have 3: "awaiting_connect s \<longrightarrow> ready (step e Connect_resolved s)"
    using login_connected_spec [of e "s\<lparr>awaiting_connect := False\<rparr>"]
    by (simp add: step_def)
  have 4: "handlers_registered s \<longrightarrow> \<not> ready (step e Close_event s)"
    using on_close_spec [of s e] by (simp add: step_def)
  have 5: "\<not> ready (step e Logout s)"
    using logout_spec [of s e] by (simp add: step_def)
  have 7: "\<not> ready s \<and> handlers_registered s \<longrightarrow>
        eventsToReplay (step e (Receive_event tp payload) s)
          = eventsToReplay s @ [BufRealtime tp payload]
        \<and> eventsToReplay (step e (Fbns_push data) s) = eventsToReplay s @ [BufFbns data]"
    by (simp add: step_def on_receive_not_ready on_fbns_push_not_ready state_of_def)
  from 1 2 3 4 5 6 7 show ?thesis by blast
qed

text \<open>
  C4 as stated fails: the client becomes ready, a \<open>close\<close> event makes it not ready
  again, and the next \<open>receive\<close> event is put into the replay buffer, which the
  replay had emptied.
\<close>

theorem ready_not_monotone:
  "ready (run (take 2 lifecycle) (Client default_options))
   \<and> eventsToReplay (run (take 2 lifecycle) (Client default_options)) = []
   \<and> \<not> ready (run (take 3 lifecycle) (Client default_options))
   \<and> eventsToReplay (run lifecycle (Client default_options))
       = [BufRealtime ex_topic ''payload'']"
  by code_simp

theorem ready_flag_lifecycle_witness:
  "awaiting_connect after_login \<and> \<not> ready after_login \<and> handlers_registered after_login
   \<and> ready (step online Connect_resolved after_login)
   \<and> \<not> ready (step online Close_event (step online Connect_resolved after_login))
   \<and> eventsToReplay (step online (Receive_event ex_topic ''p'') after_login)
       = [BufRealtime ex_topic ''p'']
   \<and> eventsToReplay (step online (Receive_event ex_topic ''p'')
        (step online Connect_resolved after_login)) = []"
proof -
  have a: "awaiting_connect after_login" "\<not> ready after_login" "handlers_registered after_login"
    "eventsToReplay after_login = []"
    using after_login_fields by simp_all
  have b: "handlers_registered (step online Connect_resolved after_login)"
    "eventsToReplay (step online Connect_resolved after_login) = []"
    using after_connect_fields by simp_all
  from ready_flag_lifecycle [of default_options online Connect_resolved after_login ex_topic "''p''"] a
  have c: "ready (step online Connect_resolved after_login)"
    and d: "eventsToReplay (step online (Receive_event ex_topic ''p'') after_login)
       = [BufRealtime ex_topic ''p'']"
    by simp_all
  from ready_flag_lifecycle [of default_options online "Receive_event ex_topic ''p''"
      "step online Connect_resolved after_login"] b c
  have e: "\<not> ready (step online Close_event (step online Connect_resolved after_login))"
    and f: "eventsToReplay (step online (Receive_event ex_topic ''p'')
        (step online Connect_resolved after_login)) = []"
    by simp_all
  from a c d e f show ?thesis by simp
qed

section \<open>Buffering and replay\<close>

lemma logMsg_ready: "logMsg l m (s\<lparr>ready := b\<rparr>) = (logMsg l m s)\<lparr>ready := b\<rparr>"
  by (simp add: logMsg_def)

lemma emit_ready: "emit e ev (s\<lparr>ready := b\<rparr>) = set_ready b (emit e ev s)"
  by (simp add: emit_def set_ready_def Let_def split: option.splits)

lemma fetchChat_ready: "fetchChat e c f (s\<lparr>ready := b\<rparr>) = set_ready b (fetchChat e c f s)"
  by (simp add: fetchChat_def with_ig_def set_ready_def Let_def split: sum.splits)

lemma minimal_chat_ready:
  "minimal_chat t (s\<lparr>ready := b\<rparr>) = (fst (minimal_chat t s), (snd (minimal_chat t s))\<lparr>ready := b\<rparr>)"
  by (simp add: minimal_chat_def Let_def)

lemma resolve_chat_ready:
  "resolve_chat e t (s\<lparr>ready := b\<rparr>) = (fst (resolve_chat e t s), (snd (resolve_chat e t s))\<lparr>ready := b\<rparr>)"
  by (simp add: resolve_chat_def fetchChat_ready set_ready_def minimal_chat_ready logMsg_ready
      split: option.splits outcome.splits)

lemma upsert_message_ready:
  "upsert_message t cr p (s\<lparr>ready := b\<rparr>) =
     (fst (upsert_message t cr p s), (snd (upsert_message t cr p s))\<lparr>ready := b\<rparr>)"
  by (simp add: upsert_message_def Let_def split: option.splits)

lemma processMessage_try_ready:
  "processMessage_try e mp d (s\<lparr>ready := b\<rparr>) = set_ready b (processMessage_try e mp d s)"
proof (cases mp)
  case None
  then show ?thesis by (simp add: processMessage_try_def set_ready_def logMsg_ready)
next
  case (Some p)
  let ?t = "js_or (case ev_thread d of None \<Rightarrow> None | Some t \<Rightarrow> t_thread_id t) (thread_id p)"
  obtain cr s1 where rc: "resolve_chat e ?t s = (cr, s1)" by (cases "resolve_chat e ?t s")
  obtain mr s2 where um: "upsert_message ?t cr p s1 = (mr, s2)" by (cases "upsert_message ?t cr p s1")
  show ?thesis
    by (simp add: processMessage_try_def Some Let_def resolve_chat_ready rc upsert_message_ready um
        emit_ready logMsg_ready)
       (simp add: set_ready_def)
qed

lemma processMessage_ready:
  "processMessage e mp d (s\<lparr>ready := b\<rparr>) = set_ready b (processMessage e mp d s)"
  by (cases "processMessage_try e mp d s")
     (simp_all add: processMessage_def processMessage_try_ready set_ready_def logMsg_ready)

lemma isNew_ready:
  "isNewMessageById m (s\<lparr>ready := b\<rparr>) =
     (fst (isNewMessageById m s), (snd (isNewMessageById m s))\<lparr>ready := b\<rparr>)"
  by (cases "processedMessageIds s")
     (simp_all add: isNewMessageById_def Let_def logMsg_ready split: option.splits)

lemma handleMessageWrapper_ready:
  "handleMessageWrapper e d (s\<lparr>ready := b\<rparr>) = set_ready b (handleMessageWrapper e d s)"
proof (cases "ev_message d")
  case None
  then show ?thesis
    by (simp add: handleMessageWrapper_def handleMessageWrapper_try_def set_ready_def logMsg_ready)
next
  case (Some p)
  obtain n s1 where i: "isNewMessageById (item_id p) s = (n, s1)"
    by (cases "isNewMessageById (item_id p) s")
  show ?thesis
  proof (cases n)
    case False
    with i show ?thesis
      by (simp add: handleMessageWrapper_def handleMessageWrapper_try_def Some isNew_ready
          set_ready_def logMsg_ready)
  next
    case True
    let ?s0 = "logMsg ''INFO'' ''Processing new message (by ID)...'' s1"
    from True i show ?thesis
      by (cases "processMessage e (Some p) d ?s0")
         (simp_all add: handleMessageWrapper_def handleMessageWrapper_try_def Some isNew_ready
          set_ready_def logMsg_ready processMessage_ready)
  qed
qed


text \<open>
  C2 (amended). While the ready flag is false, a \<open>receive\<close> event and a push
  notification are appended to the replay buffer and nothing else happens. Once it
  is true they are dispatched at once: the raw event is emitted and the buffer is
  left alone. A \<open>message\<close> or \<open>direct\<close> event is never buffered: its handler
  does the same work whether the flag is true or false.
\<close>

theorem receive_and_push_buffered_until_ready:
  "(\<not> ready s \<longrightarrow>
      on_receive e tp payload s =
        Return () (s\<lparr>eventsToReplay := eventsToReplay s @ [BufRealtime tp payload]\<rparr>)
      \<and> on_fbns_push e data s =
        Return () (s\<lparr>eventsToReplay := eventsToReplay s @ [BufFbns data]\<rparr>))
   \<and> (ready s \<longrightarrow>
      eventsToReplay (state_of (on_receive e tp payload s)) = eventsToReplay s
      \<and> emitted (state_of (on_receive e tp payload s)) = emitted s @ [RawRealtime tp payload]
      \<and> eventsToReplay (state_of (on_fbns_push e data s)) = eventsToReplay s
      \<and> (\<exists>rest. emitted (state_of (on_fbns_push e data s)) = emitted s @ RawFbns data # rest))
   \<and> eventsToReplay (state_of (handleMessageWrapper e d s)) = eventsToReplay s
   \<and> handleMessageWrapper e d (s\<lparr>ready := b\<rparr>) = set_ready b (handleMessageWrapper e d s)"
proof -
  have 1: "on_receive e tp payload s =
        Return () (s\<lparr>eventsToReplay := eventsToReplay s @ [BufRealtime tp payload]\<rparr>)
      \<and> on_fbns_push e data s =
        Return () (s\<lparr>eventsToReplay := eventsToReplay s @ [BufFbns data]\<rparr>)"
    if "\<not> ready s"
    using that by (simp add: on_receive_not_ready on_fbns_push_not_ready)
  have 2: "eventsToReplay (state_of (on_receive e tp payload s)) = eventsToReplay s
      \<and> emitted (state_of (on_receive e tp payload s)) = emitted s @ [RawRealtime tp payload]
      \<and> eventsToReplay (state_of (on_fbns_push e data s)) = eventsToReplay s
      \<and> (\<exists>rest. emitted (state_of (on_fbns_push e data s)) = emitted s @ RawFbns data # rest)"
    if "ready s"
    using on_receive_ready [OF that, of e tp payload] on_fbns_push_ready [OF that, of e data]
    by (simp add: frame_def)
  have 3: "eventsToReplay (state_of (handleMessageWrapper e d s)) = eventsToReplay s"
    using handleMessageWrapper_flags [of e d s] by simp
  from 1 2 3 handleMessageWrapper_ready [where e = e and d = d and s = s and b = b]
  show ?thesis by blast
qed

lemma registered_fields:
  "(ready registered, handlers_registered registered, eventsToReplay registered, emitted registered)
     = (False, True, [], [])"
  by (simp add: registered_def registerRealtimeHandlers_def Client_def logMsg_def)

text \<open>
  C2 as stated fails: with the handlers registered and the client not ready, a
  \<open>message\<close> event is not put into the replay buffer, it is processed and
  \<open>messageCreate\<close> is emitted.
\<close>

theorem message_event_not_buffered:
  "\<not> ready registered \<and> handlers_registered registered
   \<and> eventsToReplay (step offline (Message_event ex_micros_msg) registered) = []
   \<and> emitted (step offline (Message_event ex_micros_msg) registered) = [MessageCreate 1]"
  by (simp add: registered_def registerRealtimeHandlers_def step_def ex_micros_msg_def eval_defs)

theorem receive_and_push_buffered_until_ready_witness:
  "\<not> ready registered
   \<and> eventsToReplay (state_of (on_receive offline ex_topic ''p'' registered))
       = [BufRealtime ex_topic ''p'']
   \<and> eventsToReplay (state_of (on_fbns_push offline ex_push registered)) = [BufFbns ex_push]
   \<and> ready (registered\<lparr>ready := True\<rparr>)
   \<and> eventsToReplay (state_of (on_receive offline ex_topic ''p'' (registered\<lparr>ready := True\<rparr>))) = []
   \<and> emitted (state_of (on_receive offline ex_topic ''p'' (registered\<lparr>ready := True\<rparr>)))
       = [RawRealtime ex_topic ''p'']
   \<and> eventsToReplay (state_of (on_fbns_push offline ex_push (registered\<lparr>ready := True\<rparr>))) = []"
proof -
  have a: "\<not> ready registered" "eventsToReplay registered = []" "emitted registered = []"
    using registered_fields by simp_all
  from receive_and_push_buffered_until_ready [of registered offline ex_topic "''p''" ex_push] a
  have b: "eventsToReplay (state_of (on_receive offline ex_topic ''p'' registered))
       = [BufRealtime ex_topic ''p'']"
    and c: "eventsToReplay (state_of (on_fbns_push offline ex_push registered)) = [BufFbns ex_push]"
    by (simp_all add: state_of_def)
  have d: "ready (registered\<lparr>ready := True\<rparr>)" by simp
  from receive_and_push_buffered_until_ready [of "registered\<lparr>ready := True\<rparr>" offline ex_topic
      "''p''" ex_push] a
  have "eventsToReplay (state_of (on_receive offline ex_topic ''p'' (registered\<lparr>ready := True\<rparr>))) = []"
    and "emitted (state_of (on_receive offline ex_topic ''p'' (registered\<lparr>ready := True\<rparr>)))
       = [RawRealtime ex_topic ''p'']"
    and "eventsToReplay (state_of (on_fbns_push offline ex_push (registered\<lparr>ready := True\<rparr>))) = []"
    by simp_all
  with a b c d show ?thesis by simp
qed

text \<open>
  What the replay at the end of \<open>login\<close> does: the buffered events are handled
  in arrival order, each once, and the buffer is emptied.
\<close>

lemma replay_in_arrival_order:
  assumes "listener e Connected = None"
  shows "state_of (login_connected e s) =
     (case fold (replay_event e) (eventsToReplay s)
        ([], logMsg ''INFO'' ''Combined Instagram client is now running and listening for messages''
           (s\<lparr>ready := True, emitted := emitted s @ [Connected]\<rparr>)) of
        (tks, s') \<Rightarrow> settle e tks (s'\<lparr>eventsToReplay := []\<rparr>))"
  using assms
  by (simp add: login_connected_def emit_def Let_def state_of_def logMsg_def split: prod.splits)

lemma replay_three:
  "fold (replay_event e) [a, b, c] acc =
     replay_event e c (replay_event e b (replay_event e a acc))"
  by simp

text \<open>
  The event of a replayed follower notification is emitted by the task the replay
  leaves pending, after the buffered events behind it have been handled; live, it
  follows \<open>rawFbns\<close> at once.
\<close>

lemma replay_defers_follower_event:
  "emitted (state_of (login_connected online
      (registered\<lparr>ig := Some fresh_ig, eventsToReplay := [BufFbns ex_follower_push, BufFbns ex_push]\<rparr>)))
     = [Connected, PendingRequestNotification ex_push, NewFollower (Some 0)]
   \<and> eventsToReplay (state_of (login_connected online
      (registered\<lparr>ig := Some fresh_ig, eventsToReplay := [BufFbns ex_follower_push, BufFbns ex_push]\<rparr>)))
     = []
   \<and> emitted (state_of (on_fbns_push online ex_follower_push
      (registered\<lparr>ig := Some fresh_ig, ready := True\<rparr>)))
     = [RawFbns ex_follower_push, NewFollower (Some 0)]"
  by (simp add: registered_def registerRealtimeHandlers_def Client_def default_options_def
      online_def cookies_only_def offline_def ex_push_def ex_follower_push_def fresh_ig_def
      on_fbns_push_def login_connected_def replay_event_def handleFbnsReceive_def
      handleFbnsReceive_call_def handleFbnsReceive_resume_def settle_def waits_for_nothing_def
      fetchUser_call_def fetchUser_resume_def follow_event_def isID_def patchOrCreateUser_def
      coll_has_def coll_get_def coll_set_def User_new_def
      and_then_def detached_def emit_def logMsg_def state_of_def Let_def)

text \<open>
  C3, at a buffered event: a \<open>receive\<close> event that arrives live is re-emitted as
  \<open>rawRealtime\<close>, and a live push notification as \<open>rawFbns\<close> before it is
  handled. The replay of the same events emits neither; a buffered \<open>receive\<close>
  event of a topic other than 146 leaves no trace at all.
\<close>

theorem replay_is_not_the_live_path:
  "emitted (state_of (on_receive offline ex_topic ''p'' (registered\<lparr>ready := True\<rparr>)))
     = [RawRealtime ex_topic ''p'']
   \<and> emitted (state_of (login_connected offline
        (registered\<lparr>eventsToReplay := [BufRealtime ex_topic ''p'']\<rparr>))) = [Connected]
   \<and> logs (state_of (login_connected offline
        (registered\<lparr>eventsToReplay := [BufRealtime ex_topic ''p'']\<rparr>)))
       = logs (state_of (login_connected offline registered))
   \<and> emitted (state_of (on_receive offline inbox_topic ''p'' (registered\<lparr>ready := True\<rparr>)))
       = [RawRealtime inbox_topic ''p'']
   \<and> emitted (state_of (login_connected offline
        (registered\<lparr>eventsToReplay := [BufRealtime inbox_topic ''p'']\<rparr>))) = [Connected]
   \<and> emitted (state_of (on_fbns_push offline ex_push (registered\<lparr>ready := True\<rparr>)))
       = [RawFbns ex_push, PendingRequestNotification ex_push]
   \<and> emitted (state_of (login_connected offline (registered\<lparr>eventsToReplay := [BufFbns ex_push]\<rparr>)))
       = [Connected, PendingRequestNotification ex_push]"
  by (simp add: registered_def registerRealtimeHandlers_def Client_def default_options_def
      offline_def ex_topic_def inbox_topic_def ex_push_def on_receive_def on_fbns_push_def login_connected_def
      replay_event_def handleFbnsReceive_def handleFbnsReceive_call_def settle_def
      and_then_def detached_def emit_def logMsg_def
      state_of_def Let_def parseInboxUpdates_def)

end
